theory Spec2Isabelle
  imports Complex_Main "HOL-Library.Word"
begin

unbundle bit_operations_syntax

section \<open>Common types\<close>

text \<open>
  \<^verbatim>\<open>PlusStatus\<close> is the binary result of every operation of the library;
  \<^verbatim>\<open>ToolStatus\<close> is the validity flag stored with every tool transform.
\<close>

datatype PlusStatus = PLUS_FAIL | PLUS_SUCCESS

datatype ToolStatus = TOOL_OK | TOOL_MISSING | TOOL_OUT_OF_VIEW | TOOL_OUT_OF_VOLUME

datatype DataSourceType =
  DATA_SOURCE_TYPE_TOOL | DATA_SOURCE_TYPE_STRAYMARKER | DATA_SOURCE_TYPE_OTHER

text \<open>Ways in which the C++ source leaves its defined behaviour: a read outside a vector or
  a string, and an exception that no handler catches (it ends the process).\<close>

datatype error = OutOfBounds | UncaughtException

section \<open>vtkPlusNDITracker: the device dialogue\<close>

text \<open>
  The NDI C API (\<^verbatim>\<open>ndicapi\<close>) is an external library. A command is kept as a value
  rather than as the formatted text; \<^verbatim>\<open>ndiCommand\<close> appends it to the log of the
  device and stores what the later \<^verbatim>\<open>ndiGet...\<close> calls read back: the error code
  of the last command, the handle list of the last \<^verbatim>\<open>PHSR\<close>, the handle of the last
  \<^verbatim>\<open>PHINF\<close>. What the hardware answers is a parameter of the model (the first
  five fields); \<^verbatim>\<open>pendingInit\<close> is the list of successive answers to
  \<^verbatim>\<open>PHSR:02\<close>, one per query, empty afterwards.
\<close>

datatype ndi_command =
    TSTOP | TSTART
  | PHSR nat
  | PHF int
  | PHRQ
  | PINIT int
  | PENA int char
  | PHINF int nat
  | VER0
  | PVWR int nat "nat list"
  | BEEP int
  | LED int int char

record ndi_device =
  errorOf :: "ndi_command \<Rightarrow> int"
  phsrHandles :: "nat \<Rightarrow> (int \<times> int) list"
  phrqHandle :: int
  phinfToolInfo :: "int \<Rightarrow> string"
  phinfPartNumber :: "int \<Rightarrow> string"
  phinfPortLocation :: "int \<Rightarrow> string"
  phinfPortStatus :: "int \<Rightarrow> int"
  pendingInit :: "(int \<times> int) list list"
  commandLog :: "ndi_command list"
  lastError :: int
  phsrReply :: "(int \<times> int) list"
  phinfReply :: int

definition ndiCommand :: "ndi_device \<Rightarrow> ndi_command \<Rightarrow> ndi_device" where
  "ndiCommand dev c =
     (let dev1 = dev\<lparr>commandLog := commandLog dev @ [c], lastError := errorOf dev c\<rparr>
      in case c of
           PHSR m \<Rightarrow>
             (if m = 2
              then (case pendingInit dev of
                      [] \<Rightarrow> dev1\<lparr>phsrReply := []\<rparr>
                    | r # rs \<Rightarrow> dev1\<lparr>phsrReply := r, pendingInit := rs\<rparr>)
              else dev1\<lparr>phsrReply := phsrHandles dev m\<rparr>)
         | PHINF h f \<Rightarrow> dev1\<lparr>phinfReply := h\<rparr>
         | _ \<Rightarrow> dev1)"

definition ndiGetError :: "ndi_device \<Rightarrow> int" where
  "ndiGetError dev = lastError dev"

text \<open>
  Modelled from the spec: the port-status flags that the specification names are macros of
  \<^verbatim>\<open>ndicapi.h\<close>, which is not part of the sources; each is one bit, with the value
  that the NDI API documents.
\<close>

definition NDI_TOOL_IN_PORT :: int where "NDI_TOOL_IN_PORT = 0x01"
definition NDI_INITIALIZED :: int where "NDI_INITIALIZED = 0x10"
definition NDI_ENABLED :: int where "NDI_ENABLED = 0x20"
definition NDI_OUT_OF_VOLUME :: int where "NDI_OUT_OF_VOLUME = 0x40"

text \<open>Modelled from the spec: the LED states of \<^verbatim>\<open>ndicapi.h\<close>, sent as one character.\<close>

definition NDI_BLANK :: char where "NDI_BLANK = CHR ''B''"
definition NDI_FLASH :: char where "NDI_FLASH = CHR ''F''"
definition NDI_SOLID :: char where "NDI_SOLID = CHR ''S''"

section \<open>vtkPlusNDITracker: state\<close>

record NdiToolDescriptor =
  VirtualSROM :: "nat list option"
  WiredPortNumber :: int
  PortHandle :: int
  PortEnabled :: bool

text \<open>
  \<^verbatim>\<open>NdiToolDescriptors\<close> is a \<^verbatim>\<open>std::map\<close> from source id to descriptor, kept
  here as an association list in key order (the order of iteration). \<^verbatim>\<open>Tools\<close> is
  the tool container of the device base class: source id to custom properties.
\<close>

type_synonym position = "real \<times> real \<times> real"

record tracker =
  Device :: ndi_device
  Recording :: bool
  IsDeviceTracking :: bool
  MaxNumberOfStrays :: int
  LastStraysPos :: "position list"
  LastStraysStatus :: "ToolStatus list"
  LastFrameNumber :: nat
  NdiToolDescriptors :: "(string \<times> NdiToolDescriptor) list"
  Tools :: "string \<rightharpoonup> (string \<rightharpoonup> string)"

section \<open>InternalUpdate: one data source of a polling tick\<close>

text \<open>
  What \<^verbatim>\<open>TX\<close> reported for a port handle: the return value of
  \<^verbatim>\<open>ndiGetTXTransform\<close> (non-zero when the transform is absent), the 8-tuple, the port
  status word and the frame index.
\<close>

record tx_reply =
  ndiToolAbsent :: int
  ndiTransform :: "real list"
  ndiPortStatus :: int
  ndiFrameIndex :: nat

text \<open>The arguments of \<^verbatim>\<open>ToolTimeStampedUpdate\<close> for one source.\<close>

record tool_update =
  updTransform :: "real list"
  toolFlags :: ToolStatus
  toolFrameNumber :: nat

definition ndiPortStatusValidFlags :: int where
  "ndiPortStatusValidFlags = NDI_TOOL_IN_PORT OR NDI_INITIALIZED OR NDI_ENABLED"

text \<open>
  The conversion of the status flags: the two tests of the \<^verbatim>\<open>else\<close> branch are
  two \<^verbatim>\<open>if\<close> statements in sequence, the second assigns over the first.
\<close>

definition convert_status_flags :: "int \<Rightarrow> int \<Rightarrow> ToolStatus" where
  "convert_status_flags portStatus toolAbsent =
     (if (portStatus AND ndiPortStatusValidFlags) \<noteq> ndiPortStatusValidFlags
      then TOOL_MISSING
      else (let flags1 = (if toolAbsent \<noteq> 0 then TOOL_OUT_OF_VIEW else TOOL_OK);
                flags2 = (if (portStatus AND NDI_OUT_OF_VOLUME) \<noteq> 0
                          then TOOL_OUT_OF_VOLUME else flags1)
            in flags2))"

definition identity_transform :: "real list" where
  "identity_transform = [1, 0, 0, 0, 0, 0, 0, 0]"

text \<open>
  The branch for a source of type TOOL. It returns the update and the new
  \<^verbatim>\<open>LastFrameNumber\<close>. A source without descriptor, or whose port handle is not
  positive, is updated with the identity and \<^verbatim>\<open>TOOL_OK\<close>.
\<close>

definition update_tool ::
  "(string \<times> NdiToolDescriptor) list \<Rightarrow> (int \<Rightarrow> tx_reply) \<Rightarrow> nat \<Rightarrow> nat \<Rightarrow> string
     \<Rightarrow> tool_update \<times> nat" where
  "update_tool descriptors tx defaultToolFrameNumber lastFrameNumber toolSourceId =
     (case map_of descriptors toolSourceId of
        None \<Rightarrow>
          (\<lparr>updTransform = identity_transform, toolFlags = TOOL_OK,
            toolFrameNumber = defaultToolFrameNumber\<rparr>, lastFrameNumber)
      | Some d \<Rightarrow>
          (if PortHandle d \<le> 0
           then (\<lparr>updTransform = identity_transform, toolFlags = TOOL_OK,
                  toolFrameNumber = defaultToolFrameNumber\<rparr>, lastFrameNumber)
           else (let r = tx (PortHandle d);
                     flags = convert_status_flags (ndiPortStatus r) (ndiToolAbsent r)
                 in if ndiToolAbsent r = 0 \<and> ndiFrameIndex r \<noteq> 0
                    then (\<lparr>updTransform = ndiTransform r, toolFlags = flags,
                           toolFrameNumber = ndiFrameIndex r\<rparr>,
                          (if ndiFrameIndex r > lastFrameNumber
                           then ndiFrameIndex r else lastFrameNumber))
                    else (\<lparr>updTransform = ndiTransform r, toolFlags = flags,
                           toolFrameNumber = defaultToolFrameNumber\<rparr>, lastFrameNumber))))"

text \<open>
  Reads of the C++ source that can leave the object: \<^verbatim>\<open>std::string::operator[]\<close>
  (the position equal to the length reads the terminator) and
  \<^verbatim>\<open>std::vector::operator[]\<close> with an \<^verbatim>\<open>int\<close> index.
\<close>

definition string_at :: "string \<Rightarrow> nat \<Rightarrow> error + char" where
  "string_at s i =
     (if i < length s then Inr (s ! i)
      else if i = length s then Inr (CHR 0x00)
      else Inl OutOfBounds)"

definition vector_at :: "'a list \<Rightarrow> int \<Rightarrow> error + 'a" where
  "vector_at xs i = (if 0 \<le> i \<and> i < int (length xs) then Inr (xs ! nat i) else Inl OutOfBounds)"

text \<open>A \<^verbatim>\<open>char\<close> promoted to \<^verbatim>\<open>int\<close> (the type is signed on the supported platforms).\<close>

definition char_to_int :: "char \<Rightarrow> int" where
  "char_to_int c = (if (of_char c :: int) < 128 then of_char c else of_char c - 256)"

definition is_digit :: "char \<Rightarrow> bool" where
  "is_digit c = (48 \<le> (of_char c :: nat) \<and> (of_char c :: nat) \<le> 57)"

definition strayMarkerIndex_of :: "string \<Rightarrow> error + int" where
  "strayMarkerIndex_of toolSourceId =
     (case string_at toolSourceId 5 of
        Inl e \<Rightarrow> Inl e
      | Inr c5 \<Rightarrow>
          (case string_at toolSourceId 6 of
             Inl e \<Rightarrow> Inl e
           | Inr c6 \<Rightarrow>
               Inr ((char_to_int c5 - char_to_int (CHR ''0'')) * 10
                    + (char_to_int c6 - char_to_int (CHR ''0'')))))"

text \<open>
  The branch for a source of type STRAYMARKER. The status of a slot that is neither OK
  nor MISSING leaves the flags at their initial value \<^verbatim>\<open>TOOL_OK\<close>.
\<close>

definition update_straymarker :: "tracker \<Rightarrow> nat \<Rightarrow> string \<Rightarrow> error + tool_update" where
  "update_straymarker t defaultToolFrameNumber toolSourceId =
     (case strayMarkerIndex_of toolSourceId of
        Inl e \<Rightarrow> Inl e
      | Inr strayMarkerIndex \<Rightarrow>
          (if strayMarkerIndex \<le> MaxNumberOfStrays t
           then (case vector_at (LastStraysPos t) (strayMarkerIndex - 1) of
                   Inl e \<Rightarrow> Inl e
                 | Inr (x, y, z) \<Rightarrow>
                     (case vector_at (LastStraysStatus t) (strayMarkerIndex - 1) of
                        Inl e \<Rightarrow> Inl e
                      | Inr s \<Rightarrow>
                          Inr \<lparr>updTransform = [1, 0, 0, 0, x, y, z, 0],
                               toolFlags = (if s = TOOL_OK then TOOL_OK
                                            else if s = TOOL_MISSING then TOOL_MISSING
                                            else TOOL_OK),
                               toolFrameNumber = defaultToolFrameNumber\<rparr>))
           else Inr \<lparr>updTransform = identity_transform, toolFlags = TOOL_MISSING,
                     toolFrameNumber = defaultToolFrameNumber\<rparr>))"

text \<open>
  The body of the loop over the data sources: the update of one source and the new
  \<^verbatim>\<open>LastFrameNumber\<close>. A source of another type is updated with the identity and
  \<^verbatim>\<open>TOOL_OK\<close>.
\<close>

definition update_source ::
  "tracker \<Rightarrow> (int \<Rightarrow> tx_reply) \<Rightarrow> nat \<Rightarrow> DataSourceType \<Rightarrow> string
     \<Rightarrow> error + tool_update \<times> nat" where
  "update_source t tx defaultToolFrameNumber toolSourceType toolSourceId =
     (case toolSourceType of
        DATA_SOURCE_TYPE_TOOL \<Rightarrow>
          Inr (update_tool (NdiToolDescriptors t) tx defaultToolFrameNumber (LastFrameNumber t)
                 toolSourceId)
      | DATA_SOURCE_TYPE_STRAYMARKER \<Rightarrow>
          (case update_straymarker t defaultToolFrameNumber toolSourceId of
             Inl e \<Rightarrow> Inl e
           | Inr u \<Rightarrow> Inr (u, LastFrameNumber t))
      | DATA_SOURCE_TYPE_OTHER \<Rightarrow>
          Inr (\<lparr>updTransform = identity_transform, toolFlags = TOOL_OK,
                toolFrameNumber = defaultToolFrameNumber\<rparr>, LastFrameNumber t))"

text \<open>
  The sizing of the stray vectors in \<^verbatim>\<open>ReadConfiguration\<close>: they are resized only
  when \<^verbatim>\<open>MaxNumberOfStrays\<close> is positive.
\<close>

definition resize :: "'a list \<Rightarrow> nat \<Rightarrow> 'a \<Rightarrow> 'a list" where
  "resize xs n v = take n xs @ replicate (n - length xs) v"

definition ReadConfiguration_strays :: "tracker \<Rightarrow> int \<Rightarrow> tracker" where
  "ReadConfiguration_strays t maxStrays =
     (let t1 = t\<lparr>MaxNumberOfStrays := maxStrays\<rparr>
      in if MaxNumberOfStrays t1 > 0
         then t1\<lparr>LastStraysPos := resize (LastStraysPos t1) (nat maxStrays) (0, 0, 0),
                 LastStraysStatus := resize (LastStraysStatus t1) (nat maxStrays) TOOL_MISSING\<rparr>
         else t1)"

section \<open>Beep and SetToolLED\<close>

datatype LedState = TR_LED_OFF | TR_LED_ON | TR_LED_FLASH | TR_LED_UNSUPPORTED

definition Beep :: "tracker \<Rightarrow> int \<Rightarrow> PlusStatus \<times> tracker" where
  "Beep t n =
     (if Recording t then (PLUS_FAIL, t)
      else (let n1 = (if n > 9 then 9 else n);
                n2 = (if n1 < 0 then 0 else n1)
            in (PLUS_SUCCESS, t\<lparr>Device := ndiCommand (Device t) (BEEP n2)\<rparr>)))"

definition SetToolLED :: "tracker \<Rightarrow> string \<Rightarrow> int \<Rightarrow> LedState \<Rightarrow> PlusStatus \<times> tracker" where
  "SetToolLED t sourceId led state =
     (if \<not> Recording t then (PLUS_FAIL, t)
      else (case map_of (NdiToolDescriptors t) sourceId of
              None \<Rightarrow> (PLUS_FAIL, t)
            | Some d \<Rightarrow>
                (if PortHandle d \<le> 0 then (PLUS_FAIL, t)
                 else (case state of
                         TR_LED_OFF \<Rightarrow>
                           (PLUS_SUCCESS,
                            t\<lparr>Device := ndiCommand (Device t) (LED (PortHandle d) (led + 1) NDI_BLANK)\<rparr>)
                       | TR_LED_ON \<Rightarrow>
                           (PLUS_SUCCESS,
                            t\<lparr>Device := ndiCommand (Device t) (LED (PortHandle d) (led + 1) NDI_SOLID)\<rparr>)
                       | TR_LED_FLASH \<Rightarrow>
                           (PLUS_SUCCESS,
                            t\<lparr>Device := ndiCommand (Device t) (LED (PortHandle d) (led + 1) NDI_FLASH)\<rparr>)
                       | TR_LED_UNSUPPORTED \<Rightarrow> (PLUS_FAIL, t)))))"

section \<open>EnableToolPorts\<close>

text \<open>Free the ports that wait to be freed: one \<^verbatim>\<open>PHF\<close> per handle of \<^verbatim>\<open>PHSR:01\<close>.\<close>

fun free_ports :: "int list \<Rightarrow> ndi_device \<Rightarrow> PlusStatus \<Rightarrow> ndi_device \<times> PlusStatus" where
  "free_ports [] dev status = (dev, status)"
| "free_ports (portHandle # hs) dev status =
     (let dev1 = ndiCommand dev (PHF portHandle)
      in free_ports hs dev1 (if ndiGetError dev1 \<noteq> 0 then PLUS_FAIL else status))"

text \<open>A fixed-size \<^verbatim>\<open>char\<close> buffer filled by the API, and the C string that starts in it.\<close>

definition char_buffer :: "nat \<Rightarrow> string \<Rightarrow> string" where
  "char_buffer n s = take n (s @ replicate n (CHR 0x00))"

definition c_string :: "string \<Rightarrow> string" where
  "c_string s = takeWhile (\<lambda>c. c \<noteq> CHR 0x00) s"

definition ndiGetPHINFPortLocation :: "ndi_device \<Rightarrow> string" where
  "ndiGetPHINFPortLocation dev = char_buffer 14 (phinfPortLocation dev (phinfReply dev))"

definition ndiGetPHINFToolInfo :: "ndi_device \<Rightarrow> string" where
  "ndiGetPHINFToolInfo dev = char_buffer 34 (phinfToolInfo dev (phinfReply dev))"

definition ndiGetPHINFPartNumber :: "ndi_device \<Rightarrow> string" where
  "ndiGetPHINFPartNumber dev = char_buffer 24 (phinfPartNumber dev (phinfReply dev))"

definition ndiGetPHINFPortStatus :: "ndi_device \<Rightarrow> int" where
  "ndiGetPHINFPortStatus dev = phinfPortStatus dev (phinfReply dev)"

text \<open>
  \<^verbatim>\<open>UpdatePortHandle\<close>, wired tool: the search through the handles of
  \<^verbatim>\<open>PHSR:00\<close> for the port location that matches the combined port and channel
  number; it stops at the first match.
\<close>

fun find_wired_port :: "(int \<times> int) list \<Rightarrow> ndi_device \<Rightarrow> int \<Rightarrow> ndi_device \<times> int option" where
  "find_wired_port [] dev wired = (dev, None)"
| "find_wired_port ((portHandle, information) # rest) dev wired =
     (if (information AND NDI_TOOL_IN_PORT) \<noteq> 0
      then (let dev1 = ndiCommand dev (PHINF portHandle 0x0021);
                location = ndiGetPHINFPortLocation dev1;
                zero = char_to_int (CHR ''0'');
                foundWiredPortNumber =
                  (char_to_int (location ! 10) - zero) * 10 + (char_to_int (location ! 11) - zero) - 1;
                foundWiredPortChannel =
                  (char_to_int (location ! 12) - zero) * 10 + (char_to_int (location ! 13) - zero);
                combinedPortAndChannelNumber = foundWiredPortChannel * 100 + foundWiredPortNumber
            in if wired = combinedPortAndChannelNumber
               then (dev1, Some portHandle)
               else find_wired_port rest dev1 wired)
      else find_wired_port rest dev wired)"

definition UpdatePortHandle ::
  "ndi_device \<Rightarrow> NdiToolDescriptor \<Rightarrow> PlusStatus \<times> ndi_device \<times> NdiToolDescriptor" where
  "UpdatePortHandle dev d =
     (if WiredPortNumber d \<ge> 0
      then (let dev1 = ndiCommand dev (PHSR 0);
                found = find_wired_port (phsrReply dev1) dev1 (WiredPortNumber d)
            in case snd found of
                 None \<Rightarrow> (PLUS_FAIL, fst found, d)
               | Some portHandle \<Rightarrow>
                   (if ndiGetError (fst found) \<noteq> 0 then PLUS_FAIL else PLUS_SUCCESS,
                    fst found, d\<lparr>PortHandle := portHandle\<rparr>))
      else (let dev1 = ndiCommand dev PHRQ
            in (if ndiGetError dev1 \<noteq> 0 then PLUS_FAIL else PLUS_SUCCESS,
                dev1, d\<lparr>PortHandle := phrqHandle dev1\<rparr>)))"

definition VIRTUAL_SROM_SIZE :: nat where "VIRTUAL_SROM_SIZE = 1024"

definition TRANSFER_BLOCK_SIZE :: nat where "TRANSFER_BLOCK_SIZE = 64"

definition SendSromToTracker :: "ndi_device \<Rightarrow> NdiToolDescriptor \<Rightarrow> PlusStatus \<times> ndi_device" where
  "SendSromToTracker dev d =
     (case VirtualSROM d of
        None \<Rightarrow> (PLUS_SUCCESS, dev)
      | Some rom \<Rightarrow>
          (let dev1 = fold (\<lambda>k dv. ndiCommand (ndiCommand dv VER0)
                                    (PVWR (PortHandle d) (k * TRANSFER_BLOCK_SIZE)
                                       (take TRANSFER_BLOCK_SIZE (drop (k * TRANSFER_BLOCK_SIZE) rom))))
                           [0..<VIRTUAL_SROM_SIZE div TRANSFER_BLOCK_SIZE] dev
           in (if ndiGetError dev1 \<noteq> 0 then PLUS_FAIL else PLUS_SUCCESS, dev1)))"

text \<open>
  The two loops over the descriptors that set the port handle and send the SROM (before
  the initialisation for the tools with a virtual ROM, after the enabling for the wired
  tools without one). The first failure leaves \<^verbatim>\<open>EnableToolPorts\<close> at once.
\<close>

fun set_port_handles ::
  "(NdiToolDescriptor \<Rightarrow> bool) \<Rightarrow> (string \<times> NdiToolDescriptor) list \<Rightarrow> ndi_device
     \<Rightarrow> PlusStatus \<times> ndi_device \<times> (string \<times> NdiToolDescriptor) list" where
  "set_port_handles sel [] dev = (PLUS_SUCCESS, dev, [])"
| "set_port_handles sel ((name, d) # rest) dev =
     (if sel d
      then (case UpdatePortHandle dev d of
              (PLUS_FAIL, dev1, d1) \<Rightarrow> (PLUS_FAIL, dev1, (name, d1) # rest)
            | (PLUS_SUCCESS, dev1, d1) \<Rightarrow>
                (case SendSromToTracker dev1 d1 of
                   (PLUS_FAIL, dev2) \<Rightarrow> (PLUS_FAIL, dev2, (name, d1) # rest)
                 | (PLUS_SUCCESS, dev2) \<Rightarrow>
                     (case set_port_handles sel rest dev2 of
                        (s, dev3, rest') \<Rightarrow> (s, dev3, (name, d1) # rest'))))
      else (case set_port_handles sel rest dev of
              (s, dev1, rest') \<Rightarrow> (s, dev1, (name, d) # rest')))"

definition has_virtual_rom :: "NdiToolDescriptor \<Rightarrow> bool" where
  "has_virtual_rom d = (VirtualSROM d \<noteq> None)"

definition wired_without_rom :: "NdiToolDescriptor \<Rightarrow> bool" where
  "wired_without_rom d = (WiredPortNumber d \<ge> 0 \<and> VirtualSROM d = None)"

text \<open>
  Initialise the ports that wait for it. The body of the \<^verbatim>\<open>do ... while\<close> loop
  queries \<^verbatim>\<open>PHSR:02\<close> and sends one \<^verbatim>\<open>PINIT\<close> per handle; it is repeated while
  handles were listed and the last \<^verbatim>\<open>PINIT\<close> succeeded.
\<close>

fun pinit_handles ::
  "int list \<Rightarrow> ndi_device \<Rightarrow> PlusStatus \<Rightarrow> int \<Rightarrow> ndi_device \<times> PlusStatus \<times> int" where
  "pinit_handles [] dev status errnum = (dev, status, errnum)"
| "pinit_handles (portHandle # hs) dev status errnum =
     (let dev1 = ndiCommand dev (PINIT portHandle);
          errnum1 = ndiGetError dev1
      in pinit_handles hs dev1 (if errnum1 \<noteq> 0 then PLUS_FAIL else status) errnum1)"

function initialize_ports :: "ndi_device \<Rightarrow> PlusStatus \<Rightarrow> int \<Rightarrow> ndi_device \<times> PlusStatus" where
  "initialize_ports dev status errnum =
     (let dev1 = ndiCommand dev (PHSR 2);
          ntools = length (phsrReply dev1);
          r = pinit_handles (map fst (phsrReply dev1)) dev1 status errnum
      in if ntools > 0 \<and> snd (snd r) = 0
         then initialize_ports (fst r) (fst (snd r)) (snd (snd r))
         else (fst r, fst (snd r)))"
  by pat_completeness auto
termination
proof (relation "measure (\<lambda>(dev, status, errnum). length (pendingInit dev))", goal_cases)
  case 1
  show ?case by simp
next
  case (2 dev status errnum dev1 ntools r)
  have keep: "pendingInit (fst (pinit_handles hs d s e)) = pendingInit d" for hs d s e
    by (induction hs arbitrary: d s e) (simp_all add: Let_def ndiCommand_def)
  from 2 have "phsrReply (ndiCommand dev (PHSR 2)) \<noteq> []"
    by simp
  then have "length (pendingInit (ndiCommand dev (PHSR 2))) < length (pendingInit dev)"
    by (cases "pendingInit dev") (simp_all add: ndiCommand_def)
  with 2 keep show ?case
    by simp
qed

text \<open>
  Enable the initialised ports: for every handle of \<^verbatim>\<open>PHSR:03\<close> the tool type is
  read with \<^verbatim>\<open>PHINF\<close> and decides the mode of \<^verbatim>\<open>PENA\<close>.
\<close>

fun enable_handles :: "int list \<Rightarrow> ndi_device \<Rightarrow> PlusStatus \<Rightarrow> ndi_device \<times> PlusStatus" where
  "enable_handles [] dev status = (dev, status)"
| "enable_handles (portHandle # hs) dev status =
     (let dev1 = ndiCommand dev (PHINF portHandle 0x0001);
          identity = ndiGetPHINFToolInfo dev1;
          mode = (if identity ! 1 = CHR 0x03 then CHR ''B''
                  else if identity ! 1 = CHR 0x01 then CHR ''S''
                  else CHR ''D'');
          dev2 = ndiCommand dev1 (PENA portHandle mode)
      in enable_handles hs dev2 (if ndiGetError dev2 \<noteq> 0 then PLUS_FAIL else status))"

text \<open>
  Modelled from the spec: \<^verbatim>\<open>PlusCommon::Trim\<close> is not part of the sources; it removes
  the white space at both ends of a string.
\<close>

definition is_space :: "char \<Rightarrow> bool" where
  "is_space c = (c \<in> set [CHR '' '', CHR 0x09, CHR 0x0A, CHR 0x0B, CHR 0x0C, CHR 0x0D])"

definition Trim :: "string \<Rightarrow> string" where
  "Trim s = rev (dropWhile is_space (rev (dropWhile is_space s)))"

definition SetCustomProperty ::
  "(string \<rightharpoonup> string) \<Rightarrow> string \<Rightarrow> string \<Rightarrow> (string \<rightharpoonup> string)" where
  "SetCustomProperty props key val = props(key \<mapsto> val)"

text \<open>
  The identity string is decomposed from its end to its front: a terminator is written
  at the start of the field already read, then the C string at the start of the next
  field is taken.
\<close>

definition decompose_identity ::
  "string \<Rightarrow> string \<Rightarrow> (string \<rightharpoonup> string) \<Rightarrow> (string \<rightharpoonup> string)" where
  "decompose_identity identity partNumber props =
     (let identity1 = identity[31 := CHR 0x00];
          serialNumber = Trim (c_string (drop 23 identity1));
          props1 = SetCustomProperty props ''SerialNumber'' serialNumber;
          identity2 = identity1[23 := CHR 0x00];
          toolRevision = Trim (c_string (drop 20 identity2));
          props2 = SetCustomProperty props1 ''Revision'' toolRevision;
          identity3 = identity2[20 := CHR 0x00];
          toolManufacturer = Trim (c_string (drop 8 identity3));
          props3 = SetCustomProperty props2 ''Manufacturer'' toolManufacturer;
          identity4 = identity3[8 := CHR 0x00];
          ndiIdentity = Trim (c_string identity4);
          props4 = SetCustomProperty props3 ''NdiIdentity'' ndiIdentity;
          partNumber1 = partNumber[20 := CHR 0x00];
          toolPartNumber = Trim (c_string partNumber1)
      in SetCustomProperty props4 ''PartNumber'' toolPartNumber)"

text \<open>The integer that a \<^verbatim>\<open>PlusStatus\<close> is when it is stored in an \<^verbatim>\<open>int\<close>.\<close>

definition PlusStatus_value :: "PlusStatus \<Rightarrow> int" where
  "PlusStatus_value s = (case s of PLUS_FAIL \<Rightarrow> 0 | PLUS_SUCCESS \<Rightarrow> 1)"

text \<open>
  Update the tool info. The state of the loop is the device, the tool container, the
  descriptors already visited and \<^verbatim>\<open>status\<close>, the result of the function. In the
  body the source declares \<^verbatim>\<open>int status = ndiGetPHINFPortStatus(...)\<close>: from that
  line to the end of the body the name means this new variable, so the assignment
  \<^verbatim>\<open>status = PLUS_FAIL\<close> for a port that is not enabled goes to it
  (\<open>portStatus2\<close> below) and is lost with it; the result of the function is passed on
  as it was.
\<close>

fun update_tool_info ::
  "(string \<times> NdiToolDescriptor) list \<Rightarrow> ndi_device \<Rightarrow> (string \<rightharpoonup> (string \<rightharpoonup> string)) \<Rightarrow> PlusStatus
     \<Rightarrow> ndi_device \<times> (string \<rightharpoonup> (string \<rightharpoonup> string)) \<times> (string \<times> NdiToolDescriptor) list \<times> PlusStatus"
  where
  "update_tool_info [] dev tools status = (dev, tools, [], status)"
| "update_tool_info ((name, d) # rest) dev tools status =
     (case tools name of
        None \<Rightarrow>
          (case update_tool_info rest dev tools PLUS_FAIL of
             (dev', tools', rest', status') \<Rightarrow> (dev', tools', (name, d) # rest', status'))
      | Some props \<Rightarrow>
          (let dev1 = ndiCommand dev (PHINF (PortHandle d) 0x0025)
           in if ndiGetError dev1 \<noteq> 0
              then (case update_tool_info rest dev1 tools PLUS_FAIL of
                      (dev', tools', rest', status') \<Rightarrow> (dev', tools', (name, d) # rest', status'))
              else (let props1 = decompose_identity (ndiGetPHINFToolInfo dev1)
                                   (ndiGetPHINFPartNumber dev1) props;
                        portStatus = ndiGetPHINFPortStatus dev1;
                        d1 = d\<lparr>PortEnabled := ((portStatus AND NDI_ENABLED) \<noteq> 0)\<rparr>;
                        portStatus2 = (if \<not> PortEnabled d1
                                       then PlusStatus_value PLUS_FAIL else portStatus)
                    in case update_tool_info rest dev1 (tools(name \<mapsto> props1)) status of
                         (dev', tools', rest', status') \<Rightarrow>
                           (dev', tools', (name, d1) # rest', status'))))"

definition EnableToolPorts :: "tracker \<Rightarrow> PlusStatus \<times> tracker" where
  "EnableToolPorts t =
     (let status0 = PLUS_SUCCESS;
          \<comment> \<open>stop tracking\<close>
          dev1 = (if IsDeviceTracking t then ndiCommand (Device t) TSTOP else Device t);
          status1 = (if IsDeviceTracking t \<and> ndiGetError dev1 \<noteq> 0 then PLUS_FAIL else status0);
          \<comment> \<open>free ports that are waiting to be freed\<close>
          dev2 = ndiCommand dev1 (PHSR 1);
          freed = free_ports (map fst (phsrReply dev2)) dev2 status1
      in \<comment> \<open>port handles and SROM of the tools with a virtual ROM\<close>
         case set_port_handles has_virtual_rom (NdiToolDescriptors t) (fst freed) of
           (PLUS_FAIL, dev3, ds3) \<Rightarrow> (PLUS_FAIL, t\<lparr>Device := dev3, NdiToolDescriptors := ds3\<rparr>)
         | (PLUS_SUCCESS, dev3, ds3) \<Rightarrow>
             (let \<comment> \<open>initialize ports waiting to be initialized\<close>
                  inited = initialize_ports dev3 (snd freed) 0;
                  \<comment> \<open>enable initialized tools\<close>
                  dev5 = ndiCommand (fst inited) (PHSR 3);
                  enabled = enable_handles (map fst (phsrReply dev5)) dev5 (snd inited)
              in \<comment> \<open>port handles of the wired tools without virtual ROM\<close>
                 case set_port_handles wired_without_rom ds3 (fst enabled) of
                   (PLUS_FAIL, dev6, ds6) \<Rightarrow>
                     (PLUS_FAIL, t\<lparr>Device := dev6, NdiToolDescriptors := ds6\<rparr>)
                 | (PLUS_SUCCESS, dev6, ds6) \<Rightarrow>
                     (let \<comment> \<open>update tool info\<close>
                          dev7 = ndiCommand dev6 (PHSR 0)
                      in case update_tool_info ds6 dev7 (Tools t) (snd enabled) of
                           (dev8, tools8, ds8, status8) \<Rightarrow>
                             (let \<comment> \<open>re-start the tracking\<close>
                                  dev9 = (if IsDeviceTracking t then ndiCommand dev8 TSTART else dev8);
                                  status9 = (if IsDeviceTracking t \<and> ndiGetError dev9 \<noteq> 0
                                             then PLUS_FAIL else status8)
                              in (status9,
                                  t\<lparr>Device := dev9, NdiToolDescriptors := ds8,
                                    Tools := tools8\<rparr>)))))"

section \<open>The stray matcher\<close>

text \<open>
  Positions and distances are \<^verbatim>\<open>double\<close> in the source and real numbers here: the
  rounding of the floating-point operations is not modelled. \<^verbatim>\<open>DBL_MAX\<close> marks a
  distance that was not computed, \<^verbatim>\<open>INT_MAX\<close> a slot without match.
\<close>

definition DBL_MAX :: real where
  "DBL_MAX = (2 ^ 53 - 1) * 2 ^ 971"

definition INT_MAX :: int where
  "INT_MAX = 2147483647"

definition distance :: "position \<Rightarrow> position \<Rightarrow> real" where
  "distance p q =
     (case p of (px, py, pz) \<Rightarrow> case q of (qx, qy, qz) \<Rightarrow>
        sqrt ((px - qx) ^ 2 + (py - qy) ^ 2 + (pz - qz) ^ 2))"

definition observed :: "position \<Rightarrow> bool" where
  "observed p = (case p of (px, py, pz) \<Rightarrow> px \<noteq> 0 \<or> py \<noteq> 0 \<or> pz \<noteq> 0)"

text \<open>
  \<^verbatim>\<open>GetDistanceStrays\<close>: row \<open>j\<close> belongs to slot \<open>j\<close> and holds, for every current
  observation \<open>i\<close>, the pair of \<open>i\<close> and its distance to the last position of the
  slot, or \<^verbatim>\<open>maxDistance\<close> when the slot has the zero position.
\<close>

definition GetDistanceStrays ::
  "tracker \<Rightarrow> nat \<Rightarrow> real \<Rightarrow> position list \<Rightarrow> (int \<times> real) list list" where
  "GetDistanceStrays t numberOfStrays maxDistance straysPos =
     map (\<lambda>j. map (\<lambda>i. (int i,
                         if observed (LastStraysPos t ! j)
                         then distance (LastStraysPos t ! j) (straysPos ! i)
                         else maxDistance))
                [0..<numberOfStrays])
         [0..<nat (MaxNumberOfStrays t)]"

text \<open>
  \<^verbatim>\<open>SortDistanceStrays\<close>: every row in ascending order of the distance. The source
  calls \<^verbatim>\<open>std::sort\<close>, which leaves the order of equal distances open; the model
  sorts by insertion and keeps their order.
\<close>

definition SortDistanceStrays :: "tracker \<Rightarrow> (int \<times> real) list list \<Rightarrow> (int \<times> real) list list" where
  "SortDistanceStrays t distanceToLastMarkers =
     map (\<lambda>i. sort_key snd (distanceToLastMarkers ! i)) [0..<nat (MaxNumberOfStrays t)]"

text \<open>
  \<^verbatim>\<open>MatchStrays\<close>. The innermost loop over \<open>k\<close> looks for another slot that holds
  the candidate observation at a smaller distance.
\<close>

definition betterMatchAlreadyExist ::
  "nat \<Rightarrow> int list \<Rightarrow> real list \<Rightarrow> nat \<Rightarrow> int \<times> real \<Rightarrow> bool" where
  "betterMatchAlreadyExist maxStrays minMatchedIndex minDistance i candidate =
     list_ex (\<lambda>k. i \<noteq> k \<and> fst candidate = minMatchedIndex ! k \<and> snd candidate > minDistance ! k)
       [0..<maxStrays]"

text \<open>
  The loop over the candidates \<open>j\<close> of slot \<open>i\<close>; the first argument counts the
  iterations that are left. The result is the two vectors and \<^verbatim>\<open>checkFromTheTop\<close>.
\<close>

fun match_candidates ::
  "nat \<Rightarrow> nat \<Rightarrow> nat \<Rightarrow> int \<Rightarrow> real \<Rightarrow> (int \<times> real) list list \<Rightarrow> nat \<Rightarrow> nat
     \<Rightarrow> int list \<times> real list \<Rightarrow> (int list \<times> real list) \<times> bool" where
  "match_candidates 0 maxStrays numberOfStrays noMatchFlag maxDistance dists i j st = (st, False)"
| "match_candidates (Suc n) maxStrays numberOfStrays noMatchFlag maxDistance dists i j
       (minMatchedIndex, minDistance) =
     (if minMatchedIndex ! i = noMatchFlag
      then ((minMatchedIndex, minDistance), False)
      else if snd (dists ! i ! j) = maxDistance
      then ((minMatchedIndex[i := noMatchFlag], minDistance[i := maxDistance]), False)
      else if \<not> betterMatchAlreadyExist maxStrays minMatchedIndex minDistance i (dists ! i ! j)
      then (if minMatchedIndex ! i \<noteq> fst (dists ! i ! j)
            then ((minMatchedIndex[i := fst (dists ! i ! j)],
                   minDistance[i := snd (dists ! i ! j)]), True)
            else ((minMatchedIndex, minDistance), False))
      else match_candidates n maxStrays numberOfStrays noMatchFlag maxDistance dists i (Suc j)
             (if int j = int numberOfStrays - 1
              then (minMatchedIndex[i := noMatchFlag], minDistance[i := maxDistance])
              else (minMatchedIndex, minDistance)))"

text \<open>The loop over the slots \<open>i\<close>; it is left as soon as a slot changed its match.\<close>

fun match_slots ::
  "nat \<Rightarrow> nat \<Rightarrow> nat \<Rightarrow> int \<Rightarrow> real \<Rightarrow> (int \<times> real) list list \<Rightarrow> nat
     \<Rightarrow> int list \<times> real list \<Rightarrow> (int list \<times> real list) \<times> bool" where
  "match_slots 0 maxStrays numberOfStrays noMatchFlag maxDistance dists i st = (st, False)"
| "match_slots (Suc n) maxStrays numberOfStrays noMatchFlag maxDistance dists i st =
     (case match_candidates numberOfStrays maxStrays numberOfStrays noMatchFlag maxDistance dists i 0 st of
        (st1, checkFromTheTop) \<Rightarrow>
          (if checkFromTheTop then (st1, True)
           else match_slots n maxStrays numberOfStrays noMatchFlag maxDistance dists (Suc i) st1))"

text \<open>
  The \<^verbatim>\<open>while (checkFromTheTop)\<close> loop. Nothing in the source bounds the number of
  passes, so the model counts them: the first argument is the number of passes allowed,
  and \<open>None\<close> means that they did not suffice.
\<close>

fun match_passes ::
  "nat \<Rightarrow> nat \<Rightarrow> nat \<Rightarrow> int \<Rightarrow> real \<Rightarrow> (int \<times> real) list list
     \<Rightarrow> int list \<times> real list \<Rightarrow> int list option" where
  "match_passes 0 maxStrays numberOfStrays noMatchFlag maxDistance dists st = None"
| "match_passes (Suc fuel) maxStrays numberOfStrays noMatchFlag maxDistance dists st =
     (case match_slots maxStrays maxStrays numberOfStrays noMatchFlag maxDistance dists 0 st of
        (st1, checkFromTheTop) \<Rightarrow>
          (if checkFromTheTop
           then match_passes fuel maxStrays numberOfStrays noMatchFlag maxDistance dists st1
           else Some (fst st1)))"

definition initial_match :: "nat \<Rightarrow> int \<Rightarrow> real \<Rightarrow> (int \<times> real) list list \<Rightarrow> int list \<times> real list" where
  "initial_match maxStrays noMatchFlag maxDistance dists =
     (map (\<lambda>i. if snd (dists ! i ! 0) \<noteq> maxDistance then fst (dists ! i ! 0) else noMatchFlag)
          [0..<maxStrays],
      map (\<lambda>i. if snd (dists ! i ! 0) \<noteq> maxDistance then snd (dists ! i ! 0) else maxDistance)
          [0..<maxStrays])"

definition MatchStrays ::
  "nat \<Rightarrow> tracker \<Rightarrow> nat \<Rightarrow> int \<Rightarrow> real \<Rightarrow> (int \<times> real) list list \<Rightarrow> int list option" where
  "MatchStrays fuel t numberOfStrays noMatchFlag maxDistance distanceToLastMarkers =
     match_passes fuel (nat (MaxNumberOfStrays t)) numberOfStrays noMatchFlag maxDistance
       distanceToLastMarkers
       (initial_match (nat (MaxNumberOfStrays t)) noMatchFlag maxDistance distanceToLastMarkers)"

text \<open>
  \<^verbatim>\<open>UpdateLastStraysData\<close>: the observations that no slot holds, then the loop over
  the slots (the first argument counts the iterations that are left).
\<close>

definition unusedStrays_of :: "nat \<Rightarrow> int list \<Rightarrow> int list" where
  "unusedStrays_of numberOfStrays minMatchedIndex =
     map int (filter (\<lambda>i. \<not> list_ex (\<lambda>val. int i = val) minMatchedIndex) [0..<numberOfStrays])"

fun update_slots ::
  "nat \<Rightarrow> nat \<Rightarrow> int \<Rightarrow> int list \<Rightarrow> position list
     \<Rightarrow> position list \<times> ToolStatus list \<times> int list \<Rightarrow> position list \<times> ToolStatus list \<times> int list"
  where
  "update_slots 0 i noMatchFlag minMatchedIndex straysPos st = st"
| "update_slots (Suc n) i noMatchFlag minMatchedIndex straysPos (pos, status, unusedStrays) =
     (if minMatchedIndex ! i \<noteq> noMatchFlag
      then update_slots n (Suc i) noMatchFlag minMatchedIndex straysPos
             (pos[i := straysPos ! nat (minMatchedIndex ! i)], status[i := TOOL_OK], unusedStrays)
      else if length unusedStrays > 0
      then update_slots n (Suc i) noMatchFlag minMatchedIndex straysPos
             (pos[i := straysPos ! nat (unusedStrays ! 0)], status[i := TOOL_OK], tl unusedStrays)
      else update_slots n (Suc i) noMatchFlag minMatchedIndex straysPos
             (pos, status[i := TOOL_MISSING], unusedStrays))"

definition UpdateLastStraysData :: "tracker \<Rightarrow> nat \<Rightarrow> int \<Rightarrow> int list \<Rightarrow> position list \<Rightarrow> tracker" where
  "UpdateLastStraysData t numberOfStrays noMatchFlag minMatchedIndex straysPos =
     (case update_slots (nat (MaxNumberOfStrays t)) 0 noMatchFlag minMatchedIndex straysPos
             (LastStraysPos t, LastStraysStatus t, unusedStrays_of numberOfStrays minMatchedIndex) of
        (pos, status, unusedStrays) \<Rightarrow> t\<lparr>LastStraysPos := pos, LastStraysStatus := status\<rparr>)"

text \<open>
  The stray part of \<^verbatim>\<open>InternalUpdate\<close>: with stray tracking enabled and at least
  one position reported, the four steps in sequence.
\<close>

definition update_strays :: "nat \<Rightarrow> tracker \<Rightarrow> position list \<Rightarrow> tracker option" where
  "update_strays fuel t straysPos =
     (if MaxNumberOfStrays t > 0 \<and> length straysPos > 0
      then (let numberOfStrays = length straysPos;
                maxDistance = DBL_MAX;
                noMatchFlag = INT_MAX;
                distanceToLastMarkers =
                  SortDistanceStrays t (GetDistanceStrays t numberOfStrays maxDistance straysPos)
            in case MatchStrays fuel t numberOfStrays noMatchFlag maxDistance distanceToLastMarkers of
                 None \<Rightarrow> None
               | Some minMatchedIndex \<Rightarrow>
                   Some (UpdateLastStraysData t numberOfStrays noMatchFlag minMatchedIndex straysPos))
      else Some t)"

section \<open>vtkPlusOpenIGTLinkServer: state\<close>

text \<open>
  Times are \<^verbatim>\<open>double\<close> in the source and real numbers here. A tracked frame is its
  timestamp and its content; a message is what the clients can tell apart.
\<close>

record tracked_frame =
  Timestamp :: real
  frameContent :: nat

datatype igtl_message =
    StatusMessage_OK
  | FrameMessage string real nat
  | RTS_TDATA int
  | POLYDATA string
  | RTS_POLYDATA bool

text \<open>
  A client socket. What \<^verbatim>\<open>Send\<close> returns is a parameter of the model:
  \<open>sendResult sock k\<close> is the return value of the \<open>k\<close>-th call, zero when the
  message could not be sent.
\<close>

record client_socket =
  sendResult :: "nat \<Rightarrow> int"
  sendCount :: nat
  delivered :: "igtl_message list"

definition Send :: "client_socket \<Rightarrow> igtl_message \<Rightarrow> int \<times> client_socket" where
  "Send sock msg =
     (let r = sendResult sock (sendCount sock)
      in (r, sock\<lparr>sendCount := Suc (sendCount sock),
                  delivered := (if r \<noteq> 0 then delivered sock @ [msg] else delivered sock)\<rparr>))"

record PlusIgtlClientInfo =
  ClientHeaderVersion :: int
  TDATARequested :: bool
  Resolution :: int
  LastTDATASentTimeStamp :: real
  Subscription :: nat

text \<open>
  The receiver thread of a client runs beside the thread that disconnects the client.
  The disconnecting thread sees of it the thread id and the second component of
  \<^verbatim>\<open>DataReceiverActive\<close>, which the receiver thread writes when it closes, at the
  end of \<^verbatim>\<open>DataReceiverThread\<close>. When that happens is a parameter of the model:
  \<open>Running n\<close> is a thread inside its loop that tests the condition of the loop after
  \<open>n\<close> more delays of the waiting thread; \<open>Returned\<close> is a thread that has left the
  function, by closing or by the \<^verbatim>\<open>return NULL\<close> of a failed \<^verbatim>\<open>STT_TDATA\<close>,
  which writes neither field.
\<close>

datatype receiver_thread = Running nat | Returned

record ClientData =
  ClientId :: int
  ClientSocket :: client_socket
  ClientInfo :: PlusIgtlClientInfo
  DataReceiverThreadId :: int
  DataReceiverActive :: "bool \<times> bool"
  receiverThread :: receiver_thread

text \<open>
  The broadcast channel belongs to the data collector, which is not part of the sources:
  its answers are parameters. \<^verbatim>\<open>GetTrackedFrameList\<close> takes the timestamp of the last
  frame already got and the maximum number of frames, and returns its status, the frames
  and the new value of the timestamp (a reference argument in the source).
\<close>

record channel =
  HasVideoSource :: bool
  VideoDataAvailable :: bool
  ToolCount :: nat
  TrackingDataAvailable :: bool
  FieldCount :: nat
  FieldDataAvailable :: bool
  OldestTimestamp :: "real option"
  GetTrackedFrameList :: "real \<Rightarrow> int \<Rightarrow> PlusStatus \<times> tracked_frame list \<times> real"

text \<open>
  The server. \<^verbatim>\<open>PackMessages\<close> of the message factory, \<^verbatim>\<open>SetTransforms\<close> of
  the transform repository and the conversion of the timer to universal time are
  parameters; \<^verbatim>\<open>PackMessages\<close> receives the frame by reference and returns it.
\<close>

record server =
  IgtlClients :: "ClientData list"
  NumberOfRetryAttempts :: int
  MaxNumberOfIgtlMessagesToSend :: int
  MaxTimeSpentWithProcessingMs :: int
  LastProcessingTimePerFrameMs :: int
  LastSentTrackedFrameTimestamp :: real
  KeepAliveIntervalSec :: real
  BroadcastChannel :: "channel option"
  TransformRepository :: "(tracked_frame \<Rightarrow> PlusStatus) option"
  PackMessages :: "PlusIgtlClientInfo \<Rightarrow> tracked_frame
                     \<Rightarrow> PlusStatus \<times> igtl_message option list \<times> tracked_frame"
  GetUniversalTimeFromSystemTime :: "real \<Rightarrow> real"

definition SAMPLING_SKIPPING_MARGIN_SEC :: real where
  "SAMPLING_SKIPPING_MARGIN_SEC = 0.1"

definition NUMBER_OF_RECENT_COMMAND_IDS_STORED :: nat where
  "NUMBER_OF_RECENT_COMMAND_IDS_STORED = 10"

section \<open>Sending with retry, disconnecting, keep-alive\<close>

text \<open>
  Modelled from the spec: the macro \<^verbatim>\<open>RETRY_UNTIL_TRUE\<close> is not part of the sources;
  it repeats the command until it succeeds, at most the given number of times. The
  result is the last value assigned to \<^verbatim>\<open>retValue\<close>, which starts at zero.
\<close>

fun send_with_retry :: "nat \<Rightarrow> client_socket \<Rightarrow> igtl_message \<Rightarrow> int \<times> client_socket" where
  "send_with_retry 0 sock msg = (0, sock)"
| "send_with_retry (Suc n) sock msg =
     (case Send sock msg of
        (retValue, sock1) \<Rightarrow>
          (if retValue \<noteq> 0 then (retValue, sock1) else send_with_retry n sock1 msg))"

text \<open>
  What the receiver thread of a client does during one delay of a thread that waits for
  it: when it tests the condition of its loop and has been asked to stop, it closes.
\<close>

definition receiver_thread_step :: "ClientData \<Rightarrow> ClientData" where
  "receiver_thread_step c =
     (case receiverThread c of
        Returned \<Rightarrow> c
      | Running n \<Rightarrow>
          (case n of
             Suc m \<Rightarrow> c\<lparr>receiverThread := Running m\<rparr>
           | 0 \<Rightarrow>
               (if fst (DataReceiverActive c) then c
                else c\<lparr>DataReceiverThreadId := - 1,
                       DataReceiverActive := (fst (DataReceiverActive c), False),
                       receiverThread := Returned\<rparr>)))"

text \<open>
  \<^verbatim>\<open>DisconnectClient\<close>. The first loop asks the receiver thread of the first record
  with the id to stop.
\<close>

fun request_stop :: "int \<Rightarrow> ClientData list \<Rightarrow> ClientData list" where
  "request_stop clientId [] = []"
| "request_stop clientId (c # cs) =
     (if ClientId c \<noteq> clientId then c # request_stop clientId cs
      else c\<lparr>DataReceiverActive := (False, snd (DataReceiverActive c))\<rparr> # cs)"

text \<open>
  One round of the wait: the scan of the registry, which ends at the first record with
  the id and a positive thread id, and its result
  \<^verbatim>\<open>clientDataReceiverThreadStillActive\<close>.
\<close>

fun receiver_still_active :: "int \<Rightarrow> ClientData list \<Rightarrow> bool \<times> ClientData list" where
  "receiver_still_active clientId [] = (False, [])"
| "receiver_still_active clientId (c # cs) =
     (if ClientId c = clientId \<and> DataReceiverThreadId c > 0
      then (if snd (DataReceiverActive c) then (True, c # cs)
            else (False, c\<lparr>DataReceiverThreadId := - 1\<rparr> # cs))
      else (case receiver_still_active clientId cs of
              (stillActive, cs1) \<Rightarrow> (stillActive, c # cs1)))"

text \<open>
  The wait itself, a \<^verbatim>\<open>do\<close> loop without bound in the source: the number of rounds
  is bounded here, and \<open>None\<close> is a wait that has not ended within the bound. During
  the delay of a round the receiver threads run.
\<close>

fun wait_for_receiver :: "nat \<Rightarrow> int \<Rightarrow> ClientData list \<Rightarrow> ClientData list option" where
  "wait_for_receiver 0 clientId cs = None"
| "wait_for_receiver (Suc rounds) clientId cs =
     (case receiver_still_active clientId cs of
        (stillActive, cs1) \<Rightarrow>
          (if stillActive then wait_for_receiver rounds clientId (map receiver_thread_step cs1)
           else Some cs1))"

text \<open>
  The last loop closes the socket of the first record with the id and erases the record.
  \<^verbatim>\<open>DisconnectClient\<close> and the functions that call it take the bound on the rounds
  of a wait as their first argument, and have no result when a wait has not ended.
\<close>

fun erase_client :: "int \<Rightarrow> ClientData list \<Rightarrow> ClientData list" where
  "erase_client clientId [] = []"
| "erase_client clientId (c # cs) =
     (if ClientId c \<noteq> clientId then c # erase_client clientId cs else cs)"

definition DisconnectClient :: "nat \<Rightarrow> server \<Rightarrow> int \<Rightarrow> server option" where
  "DisconnectClient rounds s clientId =
     (case wait_for_receiver rounds clientId (request_stop clientId (IgtlClients s)) of
        None \<Rightarrow> None
      | Some cs \<Rightarrow> Some (s\<lparr>IgtlClients := erase_client clientId cs\<rparr>))"

text \<open>The clean up of the disconnected clients, at the end of the two senders.\<close>

fun disconnect_clients :: "nat \<Rightarrow> int list \<Rightarrow> server \<Rightarrow> server option" where
  "disconnect_clients rounds [] s = Some s"
| "disconnect_clients rounds (clientId # disconnectedClientIds) s =
     (case DisconnectClient rounds s clientId of
        None \<Rightarrow> None
      | Some s1 \<Rightarrow> disconnect_clients rounds disconnectedClientIds s1)"

fun keep_alive_clients :: "nat \<Rightarrow> ClientData list \<Rightarrow> ClientData list \<times> int list" where
  "keep_alive_clients attempts [] = ([], [])"
| "keep_alive_clients attempts (c # cs) =
     (case send_with_retry attempts (ClientSocket c) StatusMessage_OK of
        (retValue, sock1) \<Rightarrow>
          (case keep_alive_clients attempts cs of
             (cs1, disconnectedClientIds) \<Rightarrow>
               (c\<lparr>ClientSocket := sock1\<rparr> # cs1,
                if retValue = 0 then ClientId c # disconnectedClientIds
                else disconnectedClientIds)))"

definition KeepAlive :: "nat \<Rightarrow> server \<Rightarrow> server option" where
  "KeepAlive rounds s =
     (case keep_alive_clients (nat (NumberOfRetryAttempts s)) (IgtlClients s) of
        (cs, disconnectedClientIds) \<Rightarrow>
          disconnect_clients rounds disconnectedClientIds (s\<lparr>IgtlClients := cs\<rparr>))"

section \<open>SendTrackedFrame\<close>

text \<open>
  All messages of one client: a null message is skipped, a send that fails after the
  retries marks the client as disconnected and ends the loop, a send that succeeds stores
  the timestamp of the frame as the time of the last TDATA.
\<close>

fun send_messages ::
  "nat \<Rightarrow> real \<Rightarrow> igtl_message option list \<Rightarrow> ClientData \<Rightarrow> ClientData \<times> bool" where
  "send_messages attempts ts [] c = (c, False)"
| "send_messages attempts ts (None # ms) c = send_messages attempts ts ms c"
| "send_messages attempts ts (Some igtlMessage # ms) c =
     (case send_with_retry attempts (ClientSocket c) igtlMessage of
        (retValue, sock1) \<Rightarrow>
          (if retValue = 0 then (c\<lparr>ClientSocket := sock1\<rparr>, True)
           else send_messages attempts ts ms
                  (c\<lparr>ClientSocket := sock1,
                     ClientInfo := (ClientInfo c)\<lparr>LastTDATASentTimeStamp := ts\<rparr>\<rparr>)))"

fun send_to_clients ::
  "server \<Rightarrow> ClientData list \<Rightarrow> tracked_frame \<Rightarrow> ClientData list \<times> int list \<times> tracked_frame" where
  "send_to_clients s [] trackedFrame = ([], [], trackedFrame)"
| "send_to_clients s (c # cs) trackedFrame =
     (case PackMessages s (ClientInfo c) trackedFrame of
        (packStatus, igtlMessages, trackedFrame1) \<Rightarrow>
          (case send_messages (nat (NumberOfRetryAttempts s)) (Timestamp trackedFrame1)
                  igtlMessages c of
             (c1, disconnected) \<Rightarrow>
               (case send_to_clients s cs trackedFrame1 of
                  (cs1, disconnectedClientIds, trackedFrame2) \<Rightarrow>
                    (c1 # cs1,
                     if disconnected then ClientId c # disconnectedClientIds
                     else disconnectedClientIds,
                     trackedFrame2))))"

definition SendTrackedFrame ::
  "nat \<Rightarrow> server \<Rightarrow> tracked_frame \<Rightarrow> (PlusStatus \<times> server \<times> tracked_frame) option" where
  "SendTrackedFrame rounds s trackedFrame =
     (let numberOfErrors =
            (case TransformRepository s of
               None \<Rightarrow> (0::nat)
             | Some SetTransforms \<Rightarrow>
                 (if SetTransforms trackedFrame \<noteq> PLUS_SUCCESS then 1 else 0));
          timestampSystem = Timestamp trackedFrame;
          timestampUniversal = GetUniversalTimeFromSystemTime s timestampSystem;
          trackedFrame1 = trackedFrame\<lparr>Timestamp := timestampUniversal\<rparr>
      in case send_to_clients s (IgtlClients s) trackedFrame1 of
           (cs, disconnectedClientIds, trackedFrame2) \<Rightarrow>
             (case disconnect_clients rounds disconnectedClientIds (s\<lparr>IgtlClients := cs\<rparr>) of
                None \<Rightarrow> None
              | Some s1 \<Rightarrow>
                  (let trackedFrame3 = trackedFrame2\<lparr>Timestamp := timestampSystem\<rparr>
                   in Some (if numberOfErrors = 0 then PLUS_SUCCESS else PLUS_FAIL,
                            s1, trackedFrame3))))"

section \<open>SendLatestFramesToClients\<close>

text \<open>Division of \<^verbatim>\<open>int\<close> values truncates towards zero.\<close>

definition c_div :: "int \<Rightarrow> int \<Rightarrow> int" where
  "c_div a b = sgn a * sgn b * (\<bar>a\<bar> div \<bar>b\<bar>)"

text \<open>The conversion of a \<^verbatim>\<open>double\<close> to \<^verbatim>\<open>int\<close> drops the fraction.\<close>

definition double_to_int :: "real \<Rightarrow> int" where
  "double_to_int x = (if x \<ge> 0 then \<lfloor>x\<rfloor> else \<lceil>x\<rceil>)"

definition raise_processing_time :: "server \<Rightarrow> server" where
  "raise_processing_time s =
     (if LastProcessingTimePerFrameMs s < 1 then s\<lparr>LastProcessingTimePerFrameMs := 1\<rparr> else s)"

definition numberOfFramesToGet :: "server \<Rightarrow> int" where
  "numberOfFramesToGet s =
     min (max (c_div (MaxTimeSpentWithProcessingMs (raise_processing_time s))
                 (LastProcessingTimePerFrameMs (raise_processing_time s))) 1)
         (MaxNumberOfIgtlMessagesToSend (raise_processing_time s))"

text \<open>
  The first part of the cycle: the tracked frames acquired since the last acquisition.
\<close>

definition acquire_frames :: "server \<Rightarrow> server \<times> tracked_frame list" where
  "acquire_frames s =
     (let s1 = raise_processing_time s
      in case BroadcastChannel s1 of
           None \<Rightarrow> (s1, [])
         | Some ch \<Rightarrow>
             (if (HasVideoSource ch \<and> \<not> VideoDataAvailable ch)
                 \<or> (ToolCount ch > 0 \<and> \<not> TrackingDataAvailable ch)
                 \<or> (FieldCount ch > 0 \<and> \<not> FieldDataAvailable ch)
              then (s1, [])
              else (case OldestTimestamp ch of
                      None \<Rightarrow> (s1, [])
                    | Some oldestDataTimestamp \<Rightarrow>
                        (let s2 = (if LastSentTrackedFrameTimestamp s1 < oldestDataTimestamp
                                   then s1\<lparr>LastSentTrackedFrameTimestamp :=
                                             oldestDataTimestamp + SAMPLING_SKIPPING_MARGIN_SEC\<rparr>
                                   else s1)
                         in case GetTrackedFrameList ch (LastSentTrackedFrameTimestamp s2)
                                   (numberOfFramesToGet s) of
                              (listStatus, trackedFrameList, lastGot) \<Rightarrow>
                                (s2\<lparr>LastSentTrackedFrameTimestamp := lastGot\<rparr>,
                                 trackedFrameList)))))"

text \<open>The readings of the system timer during one cycle.\<close>

record cycle_clock =
  startTimeSec :: real
  timeAfterDelay :: real
  timeAfterSending :: real

fun send_frames :: "nat \<Rightarrow> server \<Rightarrow> tracked_frame list \<Rightarrow> server option" where
  "send_frames rounds s [] = Some s"
| "send_frames rounds s (trackedFrame # trackedFrameList) =
     (case SendTrackedFrame rounds s trackedFrame of
        None \<Rightarrow> None
      | Some (sendStatus, s1, trackedFrame1) \<Rightarrow> send_frames rounds s1 trackedFrameList)"

definition SendLatestFramesToClients ::
  "nat \<Rightarrow> server \<Rightarrow> real \<Rightarrow> cycle_clock \<Rightarrow> (PlusStatus \<times> server \<times> real) option" where
  "SendLatestFramesToClients rounds s elapsedTimeSinceLastPacketSentSec clock =
     (case acquire_frames s of
        (s1, trackedFrameList) \<Rightarrow>
          (if length trackedFrameList = 0
           then (let elapsed1 = elapsedTimeSinceLastPacketSentSec
                                + (timeAfterDelay clock - startTimeSec clock)
                 in if elapsed1 > KeepAliveIntervalSec s1
                    then (case KeepAlive rounds s1 of
                            None \<Rightarrow> None
                          | Some s2 \<Rightarrow> Some (PLUS_SUCCESS, s2, 0))
                    else Some (PLUS_FAIL, s1, elapsed1))
           else (case send_frames rounds s1 trackedFrameList of
                   None \<Rightarrow> None
                 | Some s2 \<Rightarrow>
                     (let computationTimeMs =
                            (timeAfterSending clock - startTimeSec clock) * 1000.0
                      in Some (PLUS_SUCCESS,
                               s2\<lparr>LastProcessingTimePerFrameMs :=
                                    double_to_int
                                      (computationTimeMs / real (length trackedFrameList))\<rparr>,
                               0)))))"

section \<open>DataReceiverThread\<close>

text \<open>
  One iteration of the receiver loop handles what was read from the socket of the client:
  the header version of the message and its body. The body is kept as far as the
  dispatch looks at it; the flag of a message tells whether its body was unpacked
  (\<^verbatim>\<open>UNPACK_BODY\<close>).
\<close>

datatype incoming =
    ShortRead
  | NoBodyMessage
  | ClientInfoMessage PlusIgtlClientInfo bool
  | GetStatusMessage
  | StringMessage string string bool
  | CommandMessage "32 word" string string string bool
  | StartTrackingDataMessage int bool
  | StopTrackingDataMessage
  | GetPolyDataMessage "string option" string bool bool
  | StatusMessage
  | OtherMessage

text \<open>
  The naming scheme of the commands belongs to \<^verbatim>\<open>vtkPlusCommand\<close>, which is not part
  of the sources, and \<^verbatim>\<open>std::stoi\<close> to the standard library: parameters of the model,
  as are the name attribute read from the XML text of a command and the device name of
  a reply. \<^verbatim>\<open>std::stoi\<close>
  returns a number or throws one of two exceptions.
\<close>

datatype stoi_result = Converted int | invalid_argument | out_of_range

record command_naming =
  IsCommandDeviceName :: "string \<Rightarrow> bool"
  GetUidFromCommandDeviceName :: "string \<Rightarrow> string"
  GetPrefixFromCommandDeviceName :: "string \<Rightarrow> string"
  stoi :: "string \<Rightarrow> stoi_result"
  NameAttribute :: "string \<Rightarrow> string"
  DEVICE_NAME_REPLY :: string

text \<open>
  The state of the thread: the ids of the recent commands (a \<^verbatim>\<open>std::deque\<close>, local
  to the thread and so to the client), the client info, and what the thread has handed
  over so far: the commands queued in the command processor, the string responses queued
  there, the message responses queued for the client, and the replies sent on the socket.
\<close>

record queued_command =
  isV3 :: bool
  qClientId :: int
  commandName :: string
  commandContent :: string
  qDeviceName :: string
  qUid :: "32 word"

record receiver =
  previousCommandIds :: "32 word list"
  clientInfo :: PlusIgtlClientInfo
  queuedCommands :: "queued_command list"
  queuedStringResponses :: "(PlusStatus \<times> string \<times> string) list"
  messageResponses :: "igtl_message list"
  socketReplies :: "igtl_message list"
  threadRunning :: bool

text \<open>
  The test for a repeated command and the bookkeeping of a new one, as both the branch of
  the string message and the branch of the command message have it.
\<close>

definition already_received :: "receiver \<Rightarrow> 32 word \<Rightarrow> bool" where
  "already_received r uid = (uid \<in> set (previousCommandIds r))"

definition remember_command_id :: "32 word list \<Rightarrow> 32 word \<Rightarrow> 32 word list" where
  "remember_command_id ids uid =
     (let ids1 = ids @ [uid]
      in if length ids1 > NUMBER_OF_RECENT_COMMAND_IDS_STORED then tl ids1 else ids1)"

definition QueueCommand :: "receiver \<Rightarrow> queued_command \<Rightarrow> receiver" where
  "QueueCommand r c = r\<lparr>queuedCommands := queuedCommands r @ [c]\<rparr>"

definition QueueStringResponse :: "receiver \<Rightarrow> PlusStatus \<Rightarrow> string \<Rightarrow> string \<Rightarrow> receiver" where
  "QueueStringResponse r status deviceName message =
     r\<lparr>queuedStringResponses := queuedStringResponses r @ [(status, deviceName, message)]\<rparr>"

definition QueueMessageResponseForClient :: "receiver \<Rightarrow> igtl_message \<Rightarrow> receiver" where
  "QueueMessageResponseForClient r msg = r\<lparr>messageResponses := messageResponses r @ [msg]\<rparr>"

definition receive_string_command ::
  "command_naming \<Rightarrow> int \<Rightarrow> receiver \<Rightarrow> string \<Rightarrow> string \<Rightarrow> error + receiver" where
  "receive_string_command naming clientId r deviceName content =
     (if deviceName = []
      then Inr (QueueStringResponse r PLUS_FAIL (DEVICE_NAME_REPLY naming)
                 ''Unable to read DeviceName.'')
      else (case stoi naming (GetUidFromCommandDeviceName naming deviceName) of
              out_of_range \<Rightarrow> Inl UncaughtException
            | invalid_argument \<Rightarrow>
                Inr (QueueStringResponse r PLUS_FAIL (DEVICE_NAME_REPLY naming)
                       ''Malformed DeviceName. Expected CMD_cmdId (ex: CMD_001)'')
            | Converted n \<Rightarrow>
                (let uid = (word_of_int n :: 32 word);
                     deviceName1 = GetPrefixFromCommandDeviceName naming deviceName
                 in if already_received r uid then Inr r
                    else Inr (QueueCommand
                                (r\<lparr>previousCommandIds :=
                                     remember_command_id (previousCommandIds r) uid\<rparr>)
                                \<lparr>isV3 = False, qClientId = clientId,
                                 commandName = NameAttribute naming content,
                                 commandContent = content, qDeviceName = deviceName1,
                                 qUid = uid\<rparr>))))"

definition receive_command ::
  "int \<Rightarrow> receiver \<Rightarrow> 32 word \<Rightarrow> string \<Rightarrow> string \<Rightarrow> string \<Rightarrow> receiver" where
  "receive_command clientId r uid name content deviceName =
     (if already_received r uid then r
      else QueueCommand
             (r\<lparr>previousCommandIds := remember_command_id (previousCommandIds r) uid\<rparr>)
             \<lparr>isV3 = True, qClientId = clientId, commandName = name,
              commandContent = content, qDeviceName = deviceName, qUid = uid\<rparr>)"

text \<open>
  Modelled from the spec: the header versions are constants of the OpenIGTLink library;
  the protocol numbers its versions from 1.
\<close>

definition IGTL_HEADER_VERSION_1 :: int where
  "IGTL_HEADER_VERSION_1 = 1"

definition receive_get_polydata ::
  "receiver \<Rightarrow> int \<Rightarrow> string option \<Rightarrow> string \<Rightarrow> bool \<Rightarrow> bool \<Rightarrow> receiver" where
  "receive_get_polydata r headerVersion metaFileName deviceName polyDataRead metaDataSet =
     (let fileName = (if headerVersion > IGTL_HEADER_VERSION_1
                      then (case metaFileName of Some f \<Rightarrow> f | None \<Rightarrow> deviceName)
                      else deviceName)
      in if fileName = [] then r
         else if polyDataRead
         then (if \<not> metaDataSet then r
               else QueueMessageResponseForClient r (POLYDATA fileName))
         else QueueMessageResponseForClient r (RTS_POLYDATA False))"

text \<open>
  After a complete header the thread stores, as the header version of the client, the
  smaller of the protocol version of the server and the header version of the message.
\<close>

definition negotiate_header_version :: "int \<Rightarrow> int \<Rightarrow> receiver \<Rightarrow> receiver" where
  "negotiate_header_version protocolVersion headerVersion r =
     r\<lparr>clientInfo := (clientInfo r)\<lparr>ClientHeaderVersion := min protocolVersion headerVersion\<rparr>\<rparr>"

text \<open>The chain of tests on the type of the body message.\<close>

definition dispatch_message ::
  "command_naming \<Rightarrow> int \<Rightarrow> receiver \<Rightarrow> int \<Rightarrow> incoming \<Rightarrow> error + receiver" where
  "dispatch_message naming clientId r headerVersion m =
     (case m of
        ShortRead \<Rightarrow> Inr r
      | NoBodyMessage \<Rightarrow> Inr r
      | ClientInfoMessage info unpacked \<Rightarrow>
          Inr (if unpacked then r\<lparr>clientInfo := info\<rparr> else r)
      | GetStatusMessage \<Rightarrow> Inr (r\<lparr>socketReplies := socketReplies r @ [StatusMessage_OK]\<rparr>)
      | StringMessage deviceName content unpacked \<Rightarrow>
          (if IsCommandDeviceName naming deviceName
           then (if unpacked then receive_string_command naming clientId r deviceName content
                 else Inr r)
           else Inr r)
      | CommandMessage uid name content deviceName unpacked \<Rightarrow>
          Inr (if unpacked then receive_command clientId r uid name content deviceName else r)
      | StartTrackingDataMessage resolution unpacked \<Rightarrow>
          Inr (if unpacked
               then QueueMessageResponseForClient
                      (r\<lparr>clientInfo := (clientInfo r)\<lparr>Resolution := resolution,
                                                      TDATARequested := True\<rparr>\<rparr>)
                      (RTS_TDATA 0)
               else r\<lparr>threadRunning := False\<rparr>)
      | StopTrackingDataMessage \<Rightarrow>
          Inr (QueueMessageResponseForClient
                 (r\<lparr>clientInfo := (clientInfo r)\<lparr>TDATARequested := False\<rparr>\<rparr>)
                 (RTS_TDATA 0))
      | GetPolyDataMessage metaFileName deviceName polyDataRead metaDataSet \<Rightarrow>
          Inr (receive_get_polydata r headerVersion metaFileName deviceName polyDataRead metaDataSet)
      | StatusMessage \<Rightarrow> Inr r
      | OtherMessage \<Rightarrow> Inr r)"

definition receive_message ::
  "command_naming \<Rightarrow> int \<Rightarrow> int \<Rightarrow> receiver \<Rightarrow> int \<Rightarrow> incoming \<Rightarrow> error + receiver" where
  "receive_message naming protocolVersion clientId r headerVersion m =
     (if m = ShortRead then Inr r
      else dispatch_message naming clientId
             (negotiate_header_version protocolVersion headerVersion r) headerVersion m)"

text \<open>The loop of the thread over what it reads, until the thread is told to end.\<close>

fun DataReceiverThread ::
  "command_naming \<Rightarrow> int \<Rightarrow> int \<Rightarrow> receiver \<Rightarrow> (int \<times> incoming) list \<Rightarrow> error + receiver"
  where
  "DataReceiverThread naming protocolVersion clientId r [] = Inr r"
| "DataReceiverThread naming protocolVersion clientId r ((headerVersion, m) # ms) =
     (if \<not> threadRunning r then Inr r
      else (case receive_message naming protocolVersion clientId r headerVersion m of
              Inl e \<Rightarrow> Inl e
            | Inr r1 \<Rightarrow> DataReceiverThread naming protocolVersion clientId r1 ms))"

section \<open>Notions used to state the properties\<close>

text \<open>
  The pull count as the specification words it: the quotient of
  \<^verbatim>\<open>MaxTimeSpentWithProcessingMs\<close> and \<^verbatim>\<open>LastProcessingTimePerFrameMs\<close>,
  the latter raised to 1 at least, clamped between 1 and
  \<^verbatim>\<open>MaxNumberOfIgtlMessagesToSend\<close>. The quotient of integers is rounded towards
  zero; the clamp of a value is the lower bound when the value is below it, the upper
  bound when the value is above it, and the value otherwise.
\<close>

definition clamp :: "int \<Rightarrow> int \<Rightarrow> int \<Rightarrow> int" where
  "clamp x lo hi = (if x < lo then lo else if hi < x then hi else x)"

definition quotient_towards_zero :: "int \<Rightarrow> int \<Rightarrow> int" where
  "quotient_towards_zero a b = (if 0 \<le> a then a div b else - ((- a) div b))"

definition pull_count_spec :: "server \<Rightarrow> int" where
  "pull_count_spec s =
     clamp (quotient_towards_zero (MaxTimeSpentWithProcessingMs s)
              (max (LastProcessingTimePerFrameMs s) 1))
       1 (MaxNumberOfIgtlMessagesToSend s)"

text \<open>
  Whether the channel has the data of all its sources, the condition under which the
  sender asks it for frames.
\<close>

definition data_available :: "channel \<Rightarrow> bool" where
  "data_available ch =
     ((HasVideoSource ch \<longrightarrow> VideoDataAvailable ch)
      \<and> (ToolCount ch > 0 \<longrightarrow> TrackingDataAvailable ch)
      \<and> (FieldCount ch > 0 \<longrightarrow> FieldDataAvailable ch))"

text \<open>
  Whether one of the next \<open>n\<close> calls of \<^verbatim>\<open>Send\<close> on a socket succeeds, counted from
  call number \<open>k\<close>, and whether the keep-alive of a server reaches a client.
\<close>

fun send_succeeds :: "nat \<Rightarrow> (nat \<Rightarrow> int) \<Rightarrow> nat \<Rightarrow> bool" where
  "send_succeeds 0 results k = False"
| "send_succeeds (Suc n) results k = (results k \<noteq> 0 \<or> send_succeeds n results (Suc k))"



text \<open>
  What the senders change of a client, and whether the receiver thread of a client
  closes early enough for a wait of the given number of rounds to end: the thread is
  already seen as stopped, or it tests the condition of its loop in time.
\<close>

definition client_view :: "ClientData \<Rightarrow> int \<times> client_socket \<times> PlusIgtlClientInfo" where
  "client_view c = (ClientId c, ClientSocket c, ClientInfo c)"

definition receiver_closes_within :: "nat \<Rightarrow> ClientData \<Rightarrow> bool" where
  "receiver_closes_within rounds c =
     (DataReceiverThreadId c \<le> 0 \<or> \<not> snd (DataReceiverActive c)
      \<or> (case receiverThread c of Running n \<Rightarrow> n + 1 < rounds | Returned \<Rightarrow> False))"

definition stops_within :: "nat \<Rightarrow> ClientData \<Rightarrow> bool" where
  "stops_within rounds c =
     (DataReceiverThreadId c \<le> 0 \<or> \<not> snd (DataReceiverActive c)
      \<or> (\<not> fst (DataReceiverActive c)
          \<and> (case receiverThread c of Running n \<Rightarrow> n + 1 < rounds | Returned \<Rightarrow> False)))"

definition progressed :: "nat \<Rightarrow> ClientData \<Rightarrow> ClientData \<Rightarrow> bool" where
  "progressed rounds c c' =
     (client_view c' = client_view c
      \<and> (receiver_closes_within rounds c \<longrightarrow> receiver_closes_within rounds c'))"

text \<open>
  The messages of a list that are not null, the messages packed for a client from a
  frame, and whether the next \<open>n\<close> calls of \<^verbatim>\<open>Send\<close> on a socket succeed.
\<close>

fun non_null :: "'a option list \<Rightarrow> 'a list" where
  "non_null [] = []"
| "non_null (None # ms) = non_null ms"
| "non_null (Some m # ms) = m # non_null ms"

definition packed_for :: "server \<Rightarrow> ClientData \<Rightarrow> tracked_frame \<Rightarrow> igtl_message list" where
  "packed_for s c trackedFrame =
     non_null (fst (snd (PackMessages s (ClientInfo c) trackedFrame)))"

definition accepts :: "client_socket \<Rightarrow> nat \<Rightarrow> bool" where
  "accepts sock n = (\<forall>k<n. sendResult sock (sendCount sock + k) \<noteq> 0)"

text \<open>A tracked frame with the universal time of its timestamp in place of it.\<close>

definition universal_frame :: "server \<Rightarrow> tracked_frame \<Rightarrow> tracked_frame" where
  "universal_frame s trackedFrame =
     trackedFrame\<lparr>Timestamp := GetUniversalTimeFromSystemTime s (Timestamp trackedFrame)\<rparr>"

text \<open>
  The last \<open>n\<close> elements of a list, the state in which a receiver thread starts, and
  the relation between the ids it remembers and the commands it has queued.
\<close>

definition last_n :: "nat \<Rightarrow> 'a list \<Rightarrow> 'a list" where
  "last_n n xs = drop (length xs - n) xs"

definition thread_start :: "PlusIgtlClientInfo \<Rightarrow> receiver" where
  "thread_start info =
     \<lparr>previousCommandIds = [], clientInfo = info, queuedCommands = [],
      queuedStringResponses = [], messageResponses = [], socketReplies = [],
      threadRunning = True\<rparr>"

definition window_ok :: "receiver \<Rightarrow> bool" where
  "window_ok r = (previousCommandIds r = last_n 10 (map qUid (queuedCommands r)))"

text \<open>
  For the stray matcher: the number of slots without match from slot \<open>i\<close> up to slot
  \<open>k\<close>, and the number of slots with the zero position before slot \<open>i\<close>.
\<close>

definition none_rank :: "int \<Rightarrow> int list \<Rightarrow> nat \<Rightarrow> nat \<Rightarrow> nat" where
  "none_rank noMatchFlag minMatchedIndex i k =
     length (filter (\<lambda>j. minMatchedIndex ! j = noMatchFlag) [i..<k])"

definition empty_rank :: "tracker \<Rightarrow> nat \<Rightarrow> nat" where
  "empty_rank t i = length (filter (\<lambda>j. \<not> observed (LastStraysPos t ! j)) [0..<i])"

text \<open>
  The invariant of the conflict resolution. The rows of the distance matrix are well
  formed when each has one entry per observation, no observation twice, and none equal
  to the flag of no match. A slot satisfies the invariant when either it has no match
  and its row holds no computed distance or every one of its candidates is held by
  another slot at a smaller distance, or it holds the candidate at a position \<open>p\<close> of
  its row, its row holds computed distances only, and every candidate before \<open>p\<close> is
  held by another slot at a smaller distance.
\<close>

definition rows_ok :: "nat \<Rightarrow> nat \<Rightarrow> int \<Rightarrow> (int \<times> real) list list \<Rightarrow> bool" where
  "rows_ok M n noMatchFlag dists =
     (\<forall>i<M. length (dists ! i) = n \<and> distinct (map fst (dists ! i))
            \<and> noMatchFlag \<notin> fst ` set (dists ! i))"

definition slot_inv ::
  "nat \<Rightarrow> nat \<Rightarrow> int \<Rightarrow> real \<Rightarrow> (int \<times> real) list list \<Rightarrow> int list \<times> real list \<Rightarrow> nat \<Rightarrow> bool" where
  "slot_inv M n noMatchFlag maxDistance dists st i =
     (if fst st ! i = noMatchFlag
      then (\<forall>c\<in>set (dists ! i). snd c = maxDistance)
           \<or> (\<forall>q<n. betterMatchAlreadyExist M (fst st) (snd st) i (dists ! i ! q))
      else (\<forall>c\<in>set (dists ! i). snd c \<noteq> maxDistance)
           \<and> (\<exists>p<n. fst st ! i = fst (dists ! i ! p) \<and> snd st ! i = snd (dists ! i ! p)
                    \<and> (\<forall>q<p. betterMatchAlreadyExist M (fst st) (snd st) i (dists ! i ! q))))"

definition match_inv ::
  "nat \<Rightarrow> nat \<Rightarrow> int \<Rightarrow> real \<Rightarrow> (int \<times> real) list list \<Rightarrow> int list \<times> real list \<Rightarrow> bool" where
  "match_inv M n noMatchFlag maxDistance dists st =
     (length (fst st) = M \<and> length (snd st) = M
      \<and> (\<forall>i<M. slot_inv M n noMatchFlag maxDistance dists st i))"

text \<open>
  The measure of the conflict resolution: the position that a slot has reached in its row
  (the length of the row when it has no match), summed over the slots.
\<close>

definition slot_pos :: "nat \<Rightarrow> int \<Rightarrow> (int \<times> real) list \<Rightarrow> int \<Rightarrow> nat" where
  "slot_pos n noMatchFlag row v =
     (if v = noMatchFlag then n else length (takeWhile (\<lambda>c. fst c \<noteq> v) row))"

definition match_progress :: "nat \<Rightarrow> nat \<Rightarrow> int \<Rightarrow> (int \<times> real) list list \<Rightarrow> int list \<Rightarrow> nat" where
  "match_progress M n noMatchFlag dists mmi =
     (\<Sum>i<M. slot_pos n noMatchFlag (dists ! i) (mmi ! i))"

section \<open>Example configurations\<close>

text \<open>
  Concrete values on which the properties below are evaluated: a device that answers
  every command without error and lists no handle, a wired tool on port handle 1, a
  tracker that is recording with this tool, and the \<^verbatim>\<open>TX\<close> reply of a tool that is
  in its port, initialised and enabled, whose transform is absent and whose
  out-of-volume bit is set.
\<close>

definition quiet_device :: ndi_device where
  "quiet_device =
     \<lparr>errorOf = (\<lambda>c. 0), phsrHandles = (\<lambda>m. []), phrqHandle = 0,
      phinfToolInfo = (\<lambda>h. []), phinfPartNumber = (\<lambda>h. []), phinfPortLocation = (\<lambda>h. []),
      phinfPortStatus = (\<lambda>h. 0), pendingInit = [], commandLog = [], lastError = 0,
      phsrReply = [], phinfReply = 0\<rparr>"

definition tool_on_handle_1 :: NdiToolDescriptor where
  "tool_on_handle_1 =
     \<lparr>VirtualSROM = None, WiredPortNumber = 0, PortHandle = 1, PortEnabled = True\<rparr>"

definition recording_tracker :: tracker where
  "recording_tracker =
     \<lparr>Device = quiet_device, Recording = True, IsDeviceTracking = True, MaxNumberOfStrays = 0,
      LastStraysPos = [], LastStraysStatus = [], LastFrameNumber = 0,
      NdiToolDescriptors = [(''Tool'', tool_on_handle_1)],
      Tools = [''Tool'' \<mapsto> Map.empty]\<rparr>"

definition absent_out_of_volume :: tx_reply where
  "absent_out_of_volume =
     \<lparr>ndiToolAbsent = 1, ndiTransform = identity_transform, ndiPortStatus = 0x71,
      ndiFrameIndex = 0\<rparr>"

text \<open>
  A device on which the wired tool of port 0 is found on handle 1, in its port and
  initialised but not enabled, and a tracker that connects to it.
\<close>

definition device_with_unenabled_port :: ndi_device where
  "device_with_unenabled_port =
     quiet_device\<lparr>phsrHandles := (\<lambda>m. if m = 0 then [(1, 0x01)] else []),
                  phinfPortLocation := (\<lambda>h. ''00000000000100''),
                  phinfPortStatus := (\<lambda>h. 0x11)\<rparr>"

definition connecting_tracker :: tracker where
  "connecting_tracker =
     \<lparr>Device = device_with_unenabled_port, Recording = False, IsDeviceTracking = False,
      MaxNumberOfStrays = 0, LastStraysPos = [], LastStraysStatus = [], LastFrameNumber = 0,
      NdiToolDescriptors =
        [(''Tool'', \<lparr>VirtualSROM = None, WiredPortNumber = 0, PortHandle = 0,
                     PortEnabled = False\<rparr>)],
      Tools = [''Tool'' \<mapsto> Map.empty]\<rparr>"

text \<open>
  A server with two clients, the socket of the second of which never sends, and whose
  receiver threads close when they are asked to; a channel that holds five frames and
  returns those after the given timestamp, at most as many as asked for; a
  tracked frame; a cycle of a quarter of a second.
\<close>

definition open_socket :: client_socket where
  "open_socket = \<lparr>sendResult = (\<lambda>k. 1), sendCount = 0, delivered = []\<rparr>"

definition default_client_info :: PlusIgtlClientInfo where
  "default_client_info =
     \<lparr>ClientHeaderVersion = 1, TDATARequested = False, Resolution = 0,
      LastTDATASentTimeStamp = 0, Subscription = 0\<rparr>"

definition five_frames :: "tracked_frame list" where
  "five_frames =
     [\<lparr>Timestamp = 1, frameContent = 1\<rparr>, \<lparr>Timestamp = 2, frameContent = 2\<rparr>,
      \<lparr>Timestamp = 3, frameContent = 3\<rparr>, \<lparr>Timestamp = 4, frameContent = 4\<rparr>,
      \<lparr>Timestamp = 5, frameContent = 5\<rparr>]"

definition steady_channel :: channel where
  "steady_channel =
     \<lparr>HasVideoSource = False, VideoDataAvailable = False, ToolCount = 1,
      TrackingDataAvailable = True, FieldCount = 0, FieldDataAvailable = False,
      OldestTimestamp = Some 1,
      GetTrackedFrameList =
        (\<lambda>ts n. (PLUS_SUCCESS,
                   take (nat n) (filter (\<lambda>f. ts < Timestamp f) five_frames),
                   if take (nat n) (filter (\<lambda>f. ts < Timestamp f) five_frames) = [] then ts
                   else Timestamp (last (take (nat n)
                                           (filter (\<lambda>f. ts < Timestamp f) five_frames)))))\<rparr>"

definition example_server :: server where
  "example_server =
     \<lparr>IgtlClients =
        [\<lparr>ClientId = 1, ClientSocket = open_socket, ClientInfo = default_client_info,
          DataReceiverThreadId = 11, DataReceiverActive = (True, True),
          receiverThread = Running 0\<rparr>,
         \<lparr>ClientId = 2, ClientSocket = open_socket\<lparr>sendResult := (\<lambda>k. 0)\<rparr>,
          ClientInfo = default_client_info,
          DataReceiverThreadId = 12, DataReceiverActive = (True, True),
          receiverThread = Running 1\<rparr>],
      NumberOfRetryAttempts = 10, MaxNumberOfIgtlMessagesToSend = 100,
      MaxTimeSpentWithProcessingMs = 50, LastProcessingTimePerFrameMs = -1,
      LastSentTrackedFrameTimestamp = 0, KeepAliveIntervalSec = 1 / 4,
      BroadcastChannel = None, TransformRepository = None,
      PackMessages =
        (\<lambda>info f. (PLUS_SUCCESS,
                    [Some (FrameMessage ''TRANSFORM'' (Timestamp f) (frameContent f))], f)),
      GetUniversalTimeFromSystemTime = (\<lambda>t. t + 1000)\<rparr>"

text \<open>
  The example server with the channel, 50 milliseconds for the processing of a cycle
  and 20 milliseconds spent with the last frame.
\<close>

definition pulling_server :: server where
  "pulling_server =
     example_server\<lparr>BroadcastChannel := Some steady_channel,
                     LastProcessingTimePerFrameMs := 20\<rparr>"

text \<open>
  The example server when the receiver thread of its second client has left without
  closing.
\<close>

definition stuck_server :: server where
  "stuck_server =
     example_server
       \<lparr>IgtlClients :=
          [IgtlClients example_server ! 0,
           (IgtlClients example_server ! 1)\<lparr>receiverThread := Returned\<rparr>]\<rparr>"

definition example_frame :: tracked_frame where
  "example_frame = \<lparr>Timestamp = 5, frameContent = 9\<rparr>"

definition quarter_second_cycle :: cycle_clock where
  "quarter_second_cycle = \<lparr>startTimeSec = 0, timeAfterDelay = 1 / 4, timeAfterSending = 1 / 4\<rparr>"

text \<open>
  A naming scheme of the commands, a command of the newer protocol with a given id, and
  the state of a receiver thread that has queued the legacy command \<^verbatim>\<open>CMD_7\<close>.
\<close>

definition cmd_naming :: command_naming where
  "cmd_naming =
     \<lparr>IsCommandDeviceName = (\<lambda>name. take 3 name = ''CMD''),
      GetUidFromCommandDeviceName = (\<lambda>name. drop 4 name),
      GetPrefixFromCommandDeviceName = (\<lambda>name. take 3 name),
      stoi = (\<lambda>digits. if digits = ''7'' then Converted 7 else invalid_argument),
      NameAttribute = (\<lambda>content. content),
      DEVICE_NAME_REPLY = ''ACK''\<rparr>"

definition v3_command :: "32 word \<Rightarrow> incoming" where
  "v3_command uid = CommandMessage uid ''GetStatus'' [] ''Client'' True"

definition after_cmd_7 :: receiver where
  "after_cmd_7 =
     (thread_start default_client_info)
       \<lparr>previousCommandIds := [7],
        queuedCommands :=
          [\<lparr>isV3 = False, qClientId = 1, commandName = ''StartRecording'',
            commandContent = ''StartRecording'', qDeviceName = ''CMD'', qUid = 7\<rparr>]\<rparr>"

text \<open>
  A tracker with three stray slots at the positions (0,0,10), (10,0,10) and (0,10,10).
\<close>

definition three_slots :: "tracker \<Rightarrow> ToolStatus \<Rightarrow> ToolStatus \<Rightarrow> ToolStatus \<Rightarrow> tracker" where
  "three_slots t s1 s2 s3 =
     t\<lparr>MaxNumberOfStrays := 3, LastStraysPos := [(0, 0, 10), (10, 0, 10), (0, 10, 10)],
       LastStraysStatus := [s1, s2, s3]\<rparr>"

text \<open>
  A tracker with two stray slots, the first at (0,0,10), the second never observed.
\<close>

definition two_slots :: tracker where
  "two_slots =
     recording_tracker\<lparr>MaxNumberOfStrays := 2, LastStraysPos := [(0, 0, 10), (0, 0, 0)],
                        LastStraysStatus := [TOOL_OK, TOOL_MISSING]\<rparr>"

section \<open>Properties of the tool status\<close>

lemmas port_status_flags =
  ndiPortStatusValidFlags_def NDI_TOOL_IN_PORT_def NDI_INITIALIZED_def NDI_ENABLED_def
  NDI_OUT_OF_VOLUME_def

text \<open>
  Claim C4, as the code has it. For a source of type TOOL that has a descriptor with a
  positive port handle, the reported status is MISSING when the port status lacks one of
  TOOL_IN_PORT, INITIALIZED and ENABLED; otherwise OUT_OF_VOLUME when the out-of-volume
  bit is set, whether the transform is absent or not; otherwise OUT_OF_VIEW when the
  transform is absent; otherwise OK.
\<close>

theorem tool_status_out_of_volume_first:
  assumes "map_of descriptors toolSourceId = Some d" and "PortHandle d > 0"
  shows "toolFlags (fst (update_tool descriptors tx defaultNumber lastNumber toolSourceId)) =
           (if (ndiPortStatus (tx (PortHandle d)) AND ndiPortStatusValidFlags)
                 \<noteq> ndiPortStatusValidFlags
            then TOOL_MISSING
            else if (ndiPortStatus (tx (PortHandle d)) AND NDI_OUT_OF_VOLUME) \<noteq> 0
            then TOOL_OUT_OF_VOLUME
            else if ndiToolAbsent (tx (PortHandle d)) \<noteq> 0
            then TOOL_OUT_OF_VIEW
            else TOOL_OK)"
  using assms by (simp add: update_tool_def convert_status_flags_def Let_def)

text \<open>
  The theorem at the tool on port handle 1 with the reply above: the status is
  OUT_OF_VOLUME.
\<close>

theorem tool_status_out_of_volume_first_witness:
  "map_of [(''Tool'', tool_on_handle_1)] ''Tool'' = Some tool_on_handle_1
   \<and> PortHandle tool_on_handle_1 > 0
   \<and> toolFlags (fst (update_tool [(''Tool'', tool_on_handle_1)] (\<lambda>h. absent_out_of_volume)
                        7 6 ''Tool'')) = TOOL_OUT_OF_VOLUME"
  using tool_status_out_of_volume_first
          [of "[(''Tool'', tool_on_handle_1)]" "''Tool''" tool_on_handle_1
              "\<lambda>h. absent_out_of_volume" 7 6]
  by (simp add: tool_on_handle_1_def absent_out_of_volume_def port_status_flags)

text \<open>
  Claim C4 as stated fails: a tool whose transform is absent and whose out-of-volume bit
  is set is not reported OUT_OF_VIEW.
\<close>

theorem absent_and_out_of_volume_not_out_of_view:
  "convert_status_flags (ndiPortStatus absent_out_of_volume) (ndiToolAbsent absent_out_of_volume)
     \<noteq> TOOL_OUT_OF_VIEW"
  by (simp add: convert_status_flags_def absent_out_of_volume_def port_status_flags)

section \<open>Properties of the stray marker sources\<close>

text \<open>
  Claim C9 fails on the code. With three stray slots configured, the source id
  \<^verbatim>\<open>Stray00ToTracker\<close> parses to index 0, passes the guard
  \<^verbatim>\<open>strayMarkerIndex <= MaxNumberOfStrays\<close> and reads the stray vectors at index -1.
\<close>

theorem stray_index_zero_reads_out_of_bounds:
  "update_straymarker (ReadConfiguration_strays t 3) defaultNumber ''Stray00ToTracker''
     = Inl OutOfBounds"
  by (simp add: update_straymarker_def strayMarkerIndex_of_def string_at_def char_to_int_def
        ReadConfiguration_strays_def vector_at_def)

section \<open>Properties of SetToolLED\<close>

text \<open>
  Claim C7, as the code has it. The guard of \<^verbatim>\<open>SetToolLED\<close> rejects when
  \<^verbatim>\<open>Recording\<close> is false: the call fails and the device receives no command.
\<close>

theorem SetToolLED_rejects_when_not_recording:
  "\<not> Recording t \<Longrightarrow> SetToolLED t sourceId led state = (PLUS_FAIL, t)"
  by (simp add: SetToolLED_def)

text \<open>The theorem at the example tracker once it has stopped recording.\<close>

theorem SetToolLED_rejects_when_not_recording_witness:
  "\<not> Recording (recording_tracker\<lparr>Recording := False\<rparr>)
   \<and> SetToolLED (recording_tracker\<lparr>Recording := False\<rparr>) ''Tool'' 0 TR_LED_ON
       = (PLUS_FAIL, recording_tracker\<lparr>Recording := False\<rparr>)"
  using SetToolLED_rejects_when_not_recording
          [of "recording_tracker\<lparr>Recording := False\<rparr>" "''Tool''" 0 TR_LED_ON]
  by (simp add: recording_tracker_def)

text \<open>
  Claim C7 as stated fails: with \<^verbatim>\<open>Recording\<close> true the call succeeds and the LED
  command is sent.
\<close>

theorem SetToolLED_accepts_when_recording:
  "Recording recording_tracker
   \<and> fst (SetToolLED recording_tracker ''Tool'' 0 TR_LED_ON) = PLUS_SUCCESS
   \<and> commandLog (Device (snd (SetToolLED recording_tracker ''Tool'' 0 TR_LED_ON)))
       = [LED 1 1 NDI_SOLID]"
  by (simp add: SetToolLED_def recording_tracker_def tool_on_handle_1_def ndiCommand_def
        quiet_device_def)

section \<open>Properties of EnableToolPorts\<close>

lemma ndiCommand_parameters:
  "errorOf (ndiCommand dev c) = errorOf dev"
  "phsrHandles (ndiCommand dev c) = phsrHandles dev"
  "phrqHandle (ndiCommand dev c) = phrqHandle dev"
  "phinfToolInfo (ndiCommand dev c) = phinfToolInfo dev"
  "phinfPartNumber (ndiCommand dev c) = phinfPartNumber dev"
  "phinfPortLocation (ndiCommand dev c) = phinfPortLocation dev"
  "phinfPortStatus (ndiCommand dev c) = phinfPortStatus dev"
  by (simp_all add: ndiCommand_def Let_def split: ndi_command.splits list.splits)

lemma ndiCommand_state:
  "commandLog (ndiCommand dev c) = commandLog dev @ [c]"
  "lastError (ndiCommand dev c) = errorOf dev c"
  "phsrReply (ndiCommand dev c) =
     (case c of
        PHSR m \<Rightarrow> (if m = 2 then (case pendingInit dev of [] \<Rightarrow> [] | r # rs \<Rightarrow> r)
                   else phsrHandles dev m)
      | _ \<Rightarrow> phsrReply dev)"
  "pendingInit (ndiCommand dev c) = (if c = PHSR 2 then tl (pendingInit dev) else pendingInit dev)"
  "phinfReply (ndiCommand dev c) = (case c of PHINF h f \<Rightarrow> h | _ \<Rightarrow> phinfReply dev)"
  by (simp_all add: ndiCommand_def Let_def split: ndi_command.splits list.splits)

lemma device_with_unenabled_port_fields:
  "errorOf device_with_unenabled_port = (\<lambda>c. 0)"
  "phsrHandles device_with_unenabled_port = (\<lambda>m. if m = 0 then [(1, 0x01)] else [])"
  "phinfPortLocation device_with_unenabled_port = (\<lambda>h. ''00000000000100'')"
  "phinfPortStatus device_with_unenabled_port = (\<lambda>h. 0x11)"
  "phinfToolInfo device_with_unenabled_port = (\<lambda>h. [])"
  "phinfPartNumber device_with_unenabled_port = (\<lambda>h. [])"
  "pendingInit device_with_unenabled_port = []"
  "commandLog device_with_unenabled_port = []"
  by (simp_all add: device_with_unenabled_port_def quiet_device_def)

text \<open>
  Claim C6 fails on the code. At connection the wired tool of port 0 is found on handle
  1; the device reports no error, and the port status read in the update of the tool
  info has the enabled bit clear. The descriptor is marked as not enabled, but
  \<^verbatim>\<open>EnableToolPorts\<close> returns success: the failure was assigned to the variable
  that holds the port status.
\<close>

theorem EnableToolPorts_succeeds_with_unenabled_port:
  "fst (EnableToolPorts connecting_tracker) = PLUS_SUCCESS
   \<and> map (\<lambda>(name, d). (name, PortHandle d, PortEnabled d))
         (NdiToolDescriptors (snd (EnableToolPorts connecting_tracker)))
       = [(''Tool'', 1, False)]
   \<and> commandLog (Device (snd (EnableToolPorts connecting_tracker)))
       = [PHSR 1, PHSR 2, PHSR 3, PHSR 0, PHINF 1 0x21, PHSR 0, PHINF 1 0x25]"
  by (simp add: EnableToolPorts_def connecting_tracker_def ndiCommand_parameters
        ndiCommand_state device_with_unenabled_port_fields ndiGetError_def has_virtual_rom_def
        wired_without_rom_def
        initialize_ports.simps UpdatePortHandle_def SendSromToTracker_def
        ndiGetPHINFPortLocation_def ndiGetPHINFPortStatus_def char_buffer_def char_to_int_def
        NDI_TOOL_IN_PORT_def NDI_ENABLED_def Let_def)

section \<open>Properties of DisconnectClient\<close>

lemma receiver_thread_step_view:
  "client_view (receiver_thread_step c) = client_view c"
  by (simp add: receiver_thread_step_def client_view_def split: receiver_thread.splits nat.splits)

lemma receiver_thread_step_id:
  "ClientId (receiver_thread_step c) = ClientId c"
  by (simp add: receiver_thread_step_def split: receiver_thread.splits nat.splits)

lemma receiver_thread_step_closes:
  "receiver_closes_within r c \<Longrightarrow> receiver_closes_within r (receiver_thread_step c)"
  by (auto simp add: receiver_thread_step_def receiver_closes_within_def
        split: receiver_thread.splits nat.splits)

lemma receiver_thread_step_stops:
  "stops_within (Suc r) c \<Longrightarrow> stops_within r (receiver_thread_step c)"
  by (auto simp add: receiver_thread_step_def stops_within_def
        split: receiver_thread.splits nat.splits)

lemma progressed_refl:
  "progressed r c c"
  by (simp add: progressed_def)

lemma progressed_trans:
  "progressed r a b \<Longrightarrow> progressed r b c \<Longrightarrow> progressed r a c"
  by (simp add: progressed_def)

lemma progressed_id:
  "progressed r c c' \<Longrightarrow> ClientId c' = ClientId c"
  by (simp add: progressed_def client_view_def)

lemma progressed_step:
  "progressed r c (receiver_thread_step c)"
  by (simp add: progressed_def receiver_thread_step_view receiver_thread_step_closes)

lemma progressed_list_refl:
  "list_all2 (progressed r) cs cs"
  by (simp add: list_all2_refl progressed_refl)

lemma progressed_list_trans:
  "list_all2 (progressed r) as bs \<Longrightarrow> list_all2 (progressed r) bs cs
     \<Longrightarrow> list_all2 (progressed r) as cs"
  by (rule list_all2_trans [of "progressed r" "progressed r"]) (auto intro: progressed_trans)

lemma progressed_list_ids:
  "list_all2 (progressed r) cs cs' \<Longrightarrow> map ClientId cs' = map ClientId cs"
  by (induction rule: list_all2_induct) (simp_all add: progressed_id)

lemma progressed_list_filter:
  "list_all2 (progressed r) cs cs' \<Longrightarrow>
   list_all2 (progressed r) (filter (\<lambda>c. P (ClientId c)) cs) (filter (\<lambda>c. P (ClientId c)) cs')"
  by (induction rule: list_all2_induct) (simp_all add: progressed_id)

lemma progressed_list_closes:
  assumes "list_all2 (progressed r) cs cs'"
    and "\<forall>c\<in>set cs. P (ClientId c) \<longrightarrow> receiver_closes_within r c"
  shows "\<forall>c\<in>set cs'. P (ClientId c) \<longrightarrow> receiver_closes_within r c"
  using assms
  by (induction rule: list_all2_induct) (auto simp add: progressed_def client_view_def)

lemma progressed_request:
  "progressed r c (c\<lparr>DataReceiverActive := (False, snd (DataReceiverActive c))\<rparr>)"
  by (simp add: progressed_def client_view_def receiver_closes_within_def)

lemma progressed_stopped:
  "progressed r c (c\<lparr>DataReceiverThreadId := - 1\<rparr>)"
  by (simp add: progressed_def client_view_def receiver_closes_within_def)

lemma request_stop_progressed:
  "list_all2 (progressed r) cs (request_stop i cs)"
  by (induction cs) (simp_all add: progressed_list_refl progressed_refl progressed_request)

lemma request_stop_stops:
  assumes "distinct (map ClientId cs)"
    and "\<forall>c\<in>set cs. ClientId c = i \<longrightarrow> receiver_closes_within r c"
  shows "\<forall>c\<in>set (request_stop i cs). ClientId c = i \<longrightarrow> stops_within r c"
  using assms
proof (induction cs)
  case Nil
  then show ?case by simp
next
  case (Cons c cs)
  show ?case
  proof (cases "ClientId c = i")
    case True
    with Cons.prems(1) have "\<forall>x\<in>set cs. ClientId x \<noteq> i"
      by (auto simp add: image_iff)
    moreover from True Cons.prems(2) have "receiver_closes_within r c"
      by simp
    ultimately show ?thesis
      using True by (auto simp add: stops_within_def receiver_closes_within_def)
  next
    case False
    with Cons show ?thesis by simp
  qed
qed

lemma receiver_still_active_progressed:
  "list_all2 (progressed r) cs (snd (receiver_still_active i cs))"
proof (induction cs)
  case Nil
  then show ?case by simp
next
  case (Cons c cs)
  obtain a cs1 where a: "receiver_still_active i cs = (a, cs1)"
    by (cases "receiver_still_active i cs")
  with Cons have "list_all2 (progressed r) cs cs1"
    by simp
  with a show ?case
    by (simp add: progressed_list_refl progressed_refl progressed_stopped)
qed

lemma receiver_still_active_true:
  "receiver_still_active i cs = (True, cs1) \<Longrightarrow>
   cs1 = cs \<and> (\<exists>c\<in>set cs. ClientId c = i \<and> DataReceiverThreadId c > 0
                            \<and> snd (DataReceiverActive c))"
  by (induction cs arbitrary: cs1) (auto split: if_splits prod.splits)

lemma wait_for_receiver_progressed:
  "wait_for_receiver rounds i cs = Some cs' \<Longrightarrow> list_all2 (progressed r) cs cs'"
proof (induction rounds arbitrary: cs)
  case 0
  then show ?case by simp
next
  case (Suc rounds)
  obtain a cs1 where a: "receiver_still_active i cs = (a, cs1)"
    by (cases "receiver_still_active i cs")
  have one: "list_all2 (progressed r) cs cs1"
    using receiver_still_active_progressed [of r cs i] a by simp
  show ?case
  proof (cases a)
    case False
    with Suc.prems a one show ?thesis by simp
  next
    case True
    with Suc.prems a
    have "wait_for_receiver rounds i (map receiver_thread_step cs1) = Some cs'"
      by simp
    then have "list_all2 (progressed r) (map receiver_thread_step cs1) cs'"
      by (rule Suc.IH)
    moreover have "list_all2 (progressed r) cs1 (map receiver_thread_step cs1)"
      by (simp add: list_all2_map2 list_all2_refl progressed_step)
    ultimately show ?thesis
      using one by (blast intro: progressed_list_trans)
  qed
qed

lemma wait_for_receiver_returns:
  assumes "0 < rounds"
    and "\<forall>c\<in>set cs. ClientId c = i \<longrightarrow> stops_within rounds c"
  shows "\<exists>cs'. wait_for_receiver rounds i cs = Some cs'"
  using assms
proof (induction rounds arbitrary: cs)
  case 0
  then show ?case by simp
next
  case (Suc rounds)
  obtain a cs1 where a: "receiver_still_active i cs = (a, cs1)"
    by (cases "receiver_still_active i cs")
  show ?case
  proof (cases a)
    case False
    with a show ?thesis by simp
  next
    case True
    with a obtain c where cs1: "cs1 = cs" and c: "c \<in> set cs" "ClientId c = i"
        "DataReceiverThreadId c > 0" "snd (DataReceiverActive c)"
      using receiver_still_active_true [of i cs cs1] by auto
    from c Suc.prems(2) have "stops_within (Suc rounds) c"
      by simp
    with c have pos: "0 < rounds"
      by (auto simp add: stops_within_def split: receiver_thread.splits)
    have "\<forall>x\<in>set (map receiver_thread_step cs). ClientId x = i \<longrightarrow> stops_within rounds x"
      using Suc.prems(2) by (auto simp add: receiver_thread_step_id receiver_thread_step_stops)
    from Suc.IH [OF pos this] a True cs1 show ?thesis
      by simp
  qed
qed

lemma erase_client_filter:
  "distinct (map ClientId cs) \<Longrightarrow> erase_client i cs = filter (\<lambda>c. ClientId c \<noteq> i) cs"
proof (induction cs)
  case Nil
  then show ?case by simp
next
  case (Cons c cs)
  have "ClientId c = i \<Longrightarrow> filter (\<lambda>c. ClientId c \<noteq> i) cs = cs"
  proof -
    assume i: "ClientId c = i"
    have "ClientId x \<noteq> i" if "x \<in> set cs" for x
      using Cons.prems i that by (metis distinct.simps(2) image_eqI list.simps(9) list.set_map)
    then show ?thesis by simp
  qed
  with Cons show ?case by simp
qed

text \<open>
  \<^verbatim>\<open>DisconnectClient\<close> returns when the receiver thread of the client closes in
  time; the other clients stay, up to the progress of their receiver threads.
\<close>

lemma DisconnectClient_returns:
  assumes d: "distinct (map ClientId (IgtlClients s))"
    and r: "0 < rounds"
    and closes: "\<forall>c\<in>set (IgtlClients s). ClientId c = i \<longrightarrow> receiver_closes_within rounds c"
  shows "\<exists>cs'. DisconnectClient rounds s i = Some (s\<lparr>IgtlClients := cs'\<rparr>)
           \<and> list_all2 (progressed r') (filter (\<lambda>c. ClientId c \<noteq> i) (IgtlClients s)) cs'"
proof -
  let ?cs0 = "request_stop i (IgtlClients s)"
  from request_stop_stops [OF d closes]
  obtain cs1 where w: "wait_for_receiver rounds i ?cs0 = Some cs1"
    using wait_for_receiver_returns [OF r, of ?cs0 i] by blast
  have p: "list_all2 (progressed r') (IgtlClients s) cs1"
    using request_stop_progressed [of r' "IgtlClients s" i] wait_for_receiver_progressed [OF w, of r']
    by (rule progressed_list_trans)
  have ids: "map ClientId cs1 = map ClientId (IgtlClients s)"
    using p by (rule progressed_list_ids)
  have "erase_client i cs1 = filter (\<lambda>c. ClientId c \<noteq> i) cs1"
    using d ids by (simp add: erase_client_filter)
  moreover have "list_all2 (progressed r') (filter (\<lambda>c. ClientId c \<noteq> i) (IgtlClients s))
                   (filter (\<lambda>c. ClientId c \<noteq> i) cs1)"
    using p by (rule progressed_list_filter)
  ultimately have "DisconnectClient rounds s i
                     = Some (s\<lparr>IgtlClients := filter (\<lambda>c. ClientId c \<noteq> i) cs1\<rparr>)
      \<and> list_all2 (progressed r') (filter (\<lambda>c. ClientId c \<noteq> i) (IgtlClients s))
            (filter (\<lambda>c. ClientId c \<noteq> i) cs1)"
    using w by (simp add: DisconnectClient_def)
  then show ?thesis
    by (rule exI)
qed

lemma disconnect_clients_returns:
  assumes "distinct (map ClientId (IgtlClients s))"
    and "0 < rounds"
    and "\<forall>c\<in>set (IgtlClients s). ClientId c \<in> set ids \<longrightarrow> receiver_closes_within rounds c"
  shows "\<exists>cs'. disconnect_clients rounds ids s = Some (s\<lparr>IgtlClients := cs'\<rparr>)
           \<and> list_all2 (progressed rounds)
                (filter (\<lambda>c. ClientId c \<notin> set ids) (IgtlClients s)) cs'"
  using assms
proof (induction ids arbitrary: s)
  case Nil
  have "disconnect_clients rounds [] s = Some (s\<lparr>IgtlClients := IgtlClients s\<rparr>)
      \<and> list_all2 (progressed rounds)
            (filter (\<lambda>c. ClientId c \<notin> set []) (IgtlClients s)) (IgtlClients s)"
    by (simp add: progressed_list_refl)
  then show ?case
    by (rule exI)
next
  case (Cons i ids)
  from Cons.prems(3) have "\<forall>c\<in>set (IgtlClients s). ClientId c = i \<longrightarrow> receiver_closes_within rounds c"
    by simp
  from DisconnectClient_returns [OF Cons.prems(1,2) this, of rounds]
  obtain cs1 where s1: "DisconnectClient rounds s i = Some (s\<lparr>IgtlClients := cs1\<rparr>)"
    and p1: "list_all2 (progressed rounds) (filter (\<lambda>c. ClientId c \<noteq> i) (IgtlClients s)) cs1"
    by blast
  let ?s1 = "s\<lparr>IgtlClients := cs1\<rparr>"
  have ids1: "map ClientId cs1 = map ClientId (filter (\<lambda>c. ClientId c \<noteq> i) (IgtlClients s))"
    using p1 by (rule progressed_list_ids)
  have d1: "distinct (map ClientId (IgtlClients ?s1))"
    using Cons.prems(1) by (simp add: ids1 distinct_map_filter)
  have "\<forall>c\<in>set (filter (\<lambda>c. ClientId c \<noteq> i) (IgtlClients s)).
          ClientId c \<in> set ids \<longrightarrow> receiver_closes_within rounds c"
    using Cons.prems(3) by simp
  from progressed_list_closes [OF p1, of "\<lambda>j. j \<in> set ids", OF this]
  have c1: "\<forall>c\<in>set (IgtlClients ?s1). ClientId c \<in> set ids \<longrightarrow> receiver_closes_within rounds c"
    by simp
  from Cons.IH [OF d1 Cons.prems(2) c1]
  obtain cs' where s': "disconnect_clients rounds ids ?s1 = Some (?s1\<lparr>IgtlClients := cs'\<rparr>)"
    and p': "list_all2 (progressed rounds) (filter (\<lambda>c. ClientId c \<notin> set ids) cs1) cs'"
    by auto
  have "list_all2 (progressed rounds)
          (filter (\<lambda>c. ClientId c \<notin> set ids) (filter (\<lambda>c. ClientId c \<noteq> i) (IgtlClients s)))
          (filter (\<lambda>c. ClientId c \<notin> set ids) cs1)"
    using p1 by (rule progressed_list_filter)
  then have "list_all2 (progressed rounds)
          (filter (\<lambda>c. ClientId c \<notin> set (i # ids)) (IgtlClients s)) cs'"
    using p' by (auto simp add: conj_commute intro: progressed_list_trans)
  moreover have "disconnect_clients rounds (i # ids) s = Some (s\<lparr>IgtlClients := cs'\<rparr>)"
    using s1 s' by simp
  ultimately have "disconnect_clients rounds (i # ids) s = Some (s\<lparr>IgtlClients := cs'\<rparr>)
      \<and> list_all2 (progressed rounds)
            (filter (\<lambda>c. ClientId c \<notin> set (i # ids)) (IgtlClients s)) cs'"
    by simp
  then show ?case
    by (rule exI)
qed

text \<open>
  \<^verbatim>\<open>DisconnectClient\<close> does not return for a client whose receiver thread has left
  without closing: whatever the number of rounds, the wait has not ended.
\<close>

lemma receiver_still_active_stuck:
  assumes "distinct (map ClientId cs)" and "c \<in> set cs" and "ClientId c = i"
    and "DataReceiverThreadId c > 0" and "snd (DataReceiverActive c)"
  shows "receiver_still_active i cs = (True, cs)"
  using assms
proof (induction cs)
  case Nil
  then show ?case by simp
next
  case (Cons x cs)
  show ?case
  proof (cases "x = c")
    case True
    with Cons.prems show ?thesis by simp
  next
    case False
    with Cons.prems have c: "c \<in> set cs" and "ClientId x \<noteq> ClientId c"
      by (auto simp add: image_iff)
    with Cons show ?thesis
      by simp
  qed
qed

lemma wait_for_receiver_never_returns:
  assumes "distinct (map ClientId cs)" and "c \<in> set cs" and "ClientId c = i"
    and "DataReceiverThreadId c > 0" and "snd (DataReceiverActive c)"
    and "receiverThread c = Returned"
  shows "wait_for_receiver rounds i cs = None"
  using assms
proof (induction rounds arbitrary: cs)
  case 0
  then show ?case by simp
next
  case (Suc rounds)
  have active: "receiver_still_active i cs = (True, cs)"
    using Suc.prems(1-5) by (rule receiver_still_active_stuck)
  have "receiver_thread_step c = c"
    using Suc.prems(6) by (simp add: receiver_thread_step_def)
  with Suc.prems(2) have c: "c \<in> set (map receiver_thread_step cs)"
    by (metis image_eqI list.set_map)
  have d: "distinct (map ClientId (map receiver_thread_step cs))"
    using Suc.prems(1) by (simp add: comp_def receiver_thread_step_id)
  from Suc.IH [OF d c Suc.prems(3-6)] active show ?case
    by simp
qed

lemma DisconnectClient_never_returns:
  assumes d: "distinct (map ClientId (IgtlClients s))" and c: "c \<in> set (IgtlClients s)"
    and i: "ClientId c = i"
    and stuck: "DataReceiverThreadId c > 0" "snd (DataReceiverActive c)"
      "receiverThread c = Returned"
  shows "DisconnectClient rounds s i = None"
proof -
  let ?c = "c\<lparr>DataReceiverActive := (False, snd (DataReceiverActive c))\<rparr>"
  let ?cs = "request_stop i (IgtlClients s)"
  have "map ClientId ?cs = map ClientId (IgtlClients s)"
    using request_stop_progressed [of 0 "IgtlClients s" i] by (rule progressed_list_ids)
  with d have d1: "distinct (map ClientId ?cs)"
    by simp
  have "?c \<in> set (request_stop i cs)" if "c \<in> set cs" "distinct (map ClientId cs)" for cs
    using that i by (induction cs) (auto simp add: image_iff)
  from this [OF c d] have c1: "?c \<in> set ?cs" .
  have "wait_for_receiver rounds i ?cs = None"
    using d1 c1 i stuck by (intro wait_for_receiver_never_returns [of ?cs ?c]) simp_all
  then show ?thesis
    by (simp add: DisconnectClient_def)
qed

section \<open>Properties of SendTrackedFrame\<close>

lemma send_with_retry_result:
  "fst (send_with_retry n sock msg) \<noteq> 0 \<longleftrightarrow> send_succeeds n (sendResult sock) (sendCount sock)"
  by (induction n arbitrary: sock) (simp_all add: Send_def Let_def)


lemma send_messages_receiver:
  "ClientId (fst (send_messages n ts ms c)) = ClientId c
   \<and> receiver_closes_within r (fst (send_messages n ts ms c)) = receiver_closes_within r c"
  by (induction n ts ms c rule: send_messages.induct)
     (simp_all add: receiver_closes_within_def split: prod.splits)

lemma send_to_clients_receiver:
  "list_all2 (\<lambda>c c1. ClientId c1 = ClientId c
                     \<and> receiver_closes_within r c1 = receiver_closes_within r c)
     cs (fst (send_to_clients s cs f))"
proof (induction cs arbitrary: f)
  case Nil
  then show ?case by simp
next
  case (Cons c cs)
  obtain packStatus igtlMessages f1
    where pack: "PackMessages s (ClientInfo c) f = (packStatus, igtlMessages, f1)"
    by (cases "PackMessages s (ClientInfo c) f")
  obtain c1 disconnected
    where one: "send_messages (nat (NumberOfRetryAttempts s)) (Timestamp f1) igtlMessages c
                  = (c1, disconnected)"
    by (cases "send_messages (nat (NumberOfRetryAttempts s)) (Timestamp f1) igtlMessages c")
  obtain cs1 ids f2 where rest: "send_to_clients s cs f1 = (cs1, ids, f2)"
    by (cases "send_to_clients s cs f1")
  have "ClientId c1 = ClientId c
      \<and> receiver_closes_within r c1 = receiver_closes_within r c"
    using send_messages_receiver
            [of "nat (NumberOfRetryAttempts s)" "Timestamp f1" igtlMessages c r] one
    by simp
  moreover have "list_all2 (\<lambda>c c1. ClientId c1 = ClientId c
                     \<and> receiver_closes_within r c1 = receiver_closes_within r c) cs cs1"
    using Cons.IH [of f1] rest by simp
  ultimately show ?case
    by (simp add: pack one rest)
qed

lemma send_to_clients_eq:
  assumes "\<forall>c\<in>set cs. snd (snd (PackMessages s (ClientInfo c) f)) = f"
  shows "send_to_clients s cs f =
           (map (\<lambda>c. fst (send_messages (nat (NumberOfRetryAttempts s)) (Timestamp f)
                             (fst (snd (PackMessages s (ClientInfo c) f))) c)) cs,
            map ClientId
              (filter (\<lambda>c. snd (send_messages (nat (NumberOfRetryAttempts s)) (Timestamp f)
                                   (fst (snd (PackMessages s (ClientInfo c) f))) c)) cs),
            f)"
  using assms
proof (induction cs)
  case Nil
  then show ?case by simp
next
  case (Cons c cs)
  obtain packStatus igtlMessages
    where pack: "PackMessages s (ClientInfo c) f = (packStatus, igtlMessages, f)"
    using Cons.prems by (cases "PackMessages s (ClientInfo c) f") simp
  obtain c1 disconnected
    where one: "send_messages (nat (NumberOfRetryAttempts s)) (Timestamp f) igtlMessages c
                  = (c1, disconnected)"
    by (cases "send_messages (nat (NumberOfRetryAttempts s)) (Timestamp f) igtlMessages c")
  from Cons have "send_to_clients s cs f =
           (map (\<lambda>c. fst (send_messages (nat (NumberOfRetryAttempts s)) (Timestamp f)
                             (fst (snd (PackMessages s (ClientInfo c) f))) c)) cs,
            map ClientId
              (filter (\<lambda>c. snd (send_messages (nat (NumberOfRetryAttempts s)) (Timestamp f)
                                   (fst (snd (PackMessages s (ClientInfo c) f))) c)) cs),
            f)"
    by simp
  then show ?case
    by (simp add: pack one)
qed

lemma send_with_retry_accepted:
  "sendResult sock (sendCount sock) \<noteq> 0 \<Longrightarrow>
   send_with_retry (Suc n) sock msg =
     (sendResult sock (sendCount sock),
      sock\<lparr>sendCount := Suc (sendCount sock), delivered := delivered sock @ [msg]\<rparr>)"
  by (simp add: Send_def Let_def)

lemma send_messages_accepted:
  assumes "0 < n" and "accepts (ClientSocket c) (length (non_null ms))"
  shows "\<not> snd (send_messages n ts ms c)
     \<and> delivered (ClientSocket (fst (send_messages n ts ms c)))
         = delivered (ClientSocket c) @ non_null ms
     \<and> LastTDATASentTimeStamp (ClientInfo (fst (send_messages n ts ms c)))
         = (if non_null ms = [] then LastTDATASentTimeStamp (ClientInfo c) else ts)"
  using assms
proof (induction n ts ms c rule: send_messages.induct)
  case (1 attempts ts c)
  then show ?case by simp
next
  case (2 attempts ts ms c)
  then show ?case by simp
next
  case (3 attempts ts igtlMessage ms c)
  let ?sock = "ClientSocket c"
  obtain m where attempts: "attempts = Suc m"
    using "3.prems"(1) by (cases attempts) simp_all
  have "\<forall>k<Suc (length (non_null ms)). sendResult ?sock (sendCount ?sock + k) \<noteq> 0"
    using "3.prems"(2) by (simp add: accepts_def)
  then have all: "k < Suc (length (non_null ms))
      \<Longrightarrow> sendResult ?sock (sendCount ?sock + k) \<noteq> 0" for k
    by blast
  have first: "sendResult ?sock (sendCount ?sock) \<noteq> 0"
    using all [of 0] by simp
  let ?sock1 = "?sock\<lparr>sendCount := Suc (sendCount ?sock),
                        delivered := delivered ?sock @ [igtlMessage]\<rparr>"
  let ?c1 = "c\<lparr>ClientSocket := ?sock1,
                ClientInfo := (ClientInfo c)\<lparr>LastTDATASentTimeStamp := ts\<rparr>\<rparr>"
  have sent: "send_with_retry attempts ?sock igtlMessage = (sendResult ?sock (sendCount ?sock), ?sock1)"
    unfolding attempts using first by (rule send_with_retry_accepted)
  have step: "send_messages attempts ts (Some igtlMessage # ms) c = send_messages attempts ts ms ?c1"
    using first by (simp add: sent)
  have "sendResult ?sock (Suc (sendCount ?sock + k)) \<noteq> 0" if "k < length (non_null ms)" for k
    using all [of "Suc k"] that by simp
  then have rest: "accepts (ClientSocket ?c1) (length (non_null ms))"
    by (simp add: accepts_def)
  have "\<not> snd (send_messages attempts ts ms ?c1)
     \<and> delivered (ClientSocket (fst (send_messages attempts ts ms ?c1)))
         = delivered (ClientSocket ?c1) @ non_null ms
     \<and> LastTDATASentTimeStamp (ClientInfo (fst (send_messages attempts ts ms ?c1)))
         = (if non_null ms = [] then LastTDATASentTimeStamp (ClientInfo ?c1) else ts)"
    using first "3.prems"(1) rest by (intro "3.IH" [OF sent [symmetric]]) simp_all
  then show ?case
    unfolding step by simp
qed

lemma list_all2_pick:
  "list_all2 P xs ys \<Longrightarrow> x \<in> set xs \<Longrightarrow> \<exists>y\<in>set ys. P x y"
  by (induction rule: list_all2_induct) auto

lemma SendTrackedFrame_returns:
  assumes d: "distinct (map ClientId (IgtlClients s))"
    and r: "0 < rounds"
    and closes: "\<forall>c\<in>set (IgtlClients s). receiver_closes_within rounds c"
  shows "\<exists>cs'. SendTrackedFrame rounds s trackedFrame =
                  Some (if (case TransformRepository s of
                              None \<Rightarrow> True
                            | Some SetTransforms \<Rightarrow> SetTransforms trackedFrame = PLUS_SUCCESS)
                        then PLUS_SUCCESS else PLUS_FAIL,
                        s\<lparr>IgtlClients := cs'\<rparr>,
                        (snd (snd (send_to_clients s (IgtlClients s)
                                     (universal_frame s trackedFrame))))
                          \<lparr>Timestamp := Timestamp trackedFrame\<rparr>)
           \<and> list_all2 (progressed rounds)
                (filter (\<lambda>c. ClientId c \<notin> set (fst (snd (send_to_clients s (IgtlClients s)
                                                              (universal_frame s trackedFrame)))))
                   (fst (send_to_clients s (IgtlClients s) (universal_frame s trackedFrame))))
                cs'"
proof -
  obtain cs1 ids f2 where sent:
      "send_to_clients s (IgtlClients s) (universal_frame s trackedFrame) = (cs1, ids, f2)"
    by (cases "send_to_clients s (IgtlClients s) (universal_frame s trackedFrame)")
  have rel: "list_all2 (\<lambda>c c1. ClientId c1 = ClientId c
                \<and> receiver_closes_within rounds c1 = receiver_closes_within rounds c)
               (IgtlClients s) cs1"
    using send_to_clients_receiver [of rounds "IgtlClients s" s "universal_frame s trackedFrame"] sent
    by simp
  have "map ClientId cs1 = map ClientId (IgtlClients s)"
    using rel by (induction rule: list_all2_induct) simp_all
  with d have d1: "distinct (map ClientId (IgtlClients (s\<lparr>IgtlClients := cs1\<rparr>)))"
    by simp
  have "\<forall>c\<in>set cs1. receiver_closes_within rounds c"
    using rel closes by (induction rule: list_all2_induct) simp_all
  then have c1: "\<forall>c\<in>set (IgtlClients (s\<lparr>IgtlClients := cs1\<rparr>)).
                   ClientId c \<in> set ids \<longrightarrow> receiver_closes_within rounds c"
    by simp
  from disconnect_clients_returns [OF d1 r c1]
  obtain cs' where run: "disconnect_clients rounds ids (s\<lparr>IgtlClients := cs1\<rparr>)
                           = Some (s\<lparr>IgtlClients := cs'\<rparr>)"
    and p: "list_all2 (progressed rounds) (filter (\<lambda>c. ClientId c \<notin> set ids) cs1) cs'"
    by auto
  have "SendTrackedFrame rounds s trackedFrame =
          Some (if (case TransformRepository s of
                      None \<Rightarrow> True
                    | Some SetTransforms \<Rightarrow> SetTransforms trackedFrame = PLUS_SUCCESS)
                then PLUS_SUCCESS else PLUS_FAIL,
                s\<lparr>IgtlClients := cs'\<rparr>, f2\<lparr>Timestamp := Timestamp trackedFrame\<rparr>)"
    using sent run
    by (simp add: SendTrackedFrame_def universal_frame_def Let_def split: option.splits)
  with p sent show ?thesis
    by (intro exI [of _ cs']) simp
qed

lemma send_messages_rejected:
  assumes "non_null ms \<noteq> []"
    and "\<not> send_succeeds n (sendResult (ClientSocket c)) (sendCount (ClientSocket c))"
  shows "snd (send_messages n ts ms c)"
  using assms
proof (induction n ts ms c rule: send_messages.induct)
  case (1 attempts ts c)
  then show ?case by simp
next
  case (2 attempts ts ms c)
  then show ?case by simp
next
  case (3 attempts ts igtlMessage ms c)
  obtain retValue sock1
    where sent: "send_with_retry attempts (ClientSocket c) igtlMessage = (retValue, sock1)"
    by (cases "send_with_retry attempts (ClientSocket c) igtlMessage")
  have "retValue = 0"
    using "3.prems"(2) send_with_retry_result [of attempts "ClientSocket c" igtlMessage] sent
    by simp
  then show ?case
    by (simp add: sent)
qed

lemma SendTrackedFrame_delivers:
  assumes d: "distinct (map ClientId (IgtlClients s))"
    and r: "0 < rounds"
    and closes: "\<forall>c\<in>set (IgtlClients s). receiver_closes_within rounds c"
    and pack: "\<forall>c\<in>set (IgtlClients s).
                 snd (snd (PackMessages s (ClientInfo c) (universal_frame s trackedFrame)))
                   = universal_frame s trackedFrame"
  shows "\<exists>sendStatus s'.
           SendTrackedFrame rounds s trackedFrame = Some (sendStatus, s', trackedFrame)
           \<and> (\<forall>c\<in>set (IgtlClients s).
                  0 < NumberOfRetryAttempts s
                  \<and> accepts (ClientSocket c)
                      (length (packed_for s c (universal_frame s trackedFrame))) \<longrightarrow>
                  (\<exists>c'\<in>set (IgtlClients s').
                     ClientId c' = ClientId c
                     \<and> delivered (ClientSocket c')
                         = delivered (ClientSocket c)
                           @ packed_for s c (universal_frame s trackedFrame)
                     \<and> LastTDATASentTimeStamp (ClientInfo c')
                         = (if packed_for s c (universal_frame s trackedFrame) = []
                            then LastTDATASentTimeStamp (ClientInfo c)
                            else GetUniversalTimeFromSystemTime s (Timestamp trackedFrame))))
           \<and> (\<forall>c\<in>set (IgtlClients s).
                  packed_for s c (universal_frame s trackedFrame) \<noteq> []
                  \<and> \<not> send_succeeds (nat (NumberOfRetryAttempts s))
                         (sendResult (ClientSocket c)) (sendCount (ClientSocket c)) \<longrightarrow>
                  ClientId c \<notin> ClientId ` set (IgtlClients s'))"
proof -
  let ?f = "universal_frame s trackedFrame"
  let ?n = "nat (NumberOfRetryAttempts s)"
  let ?send = "\<lambda>c. send_messages ?n (Timestamp ?f) (fst (snd (PackMessages s (ClientInfo c) ?f))) c"
  let ?cs1 = "map (\<lambda>c. fst (?send c)) (IgtlClients s)"
  let ?ids = "map ClientId (filter (\<lambda>c. snd (?send c)) (IgtlClients s))"
  have sent: "send_to_clients s (IgtlClients s) ?f = (?cs1, ?ids, ?f)"
    using pack by (rule send_to_clients_eq)
  have restored: "?f\<lparr>Timestamp := Timestamp trackedFrame\<rparr> = trackedFrame"
    by (simp add: universal_frame_def)
  from SendTrackedFrame_returns [OF d r closes, of trackedFrame]
  obtain sendStatus cs' where
    run: "SendTrackedFrame rounds s trackedFrame = Some (sendStatus, s\<lparr>IgtlClients := cs'\<rparr>, trackedFrame)"
    and p: "list_all2 (progressed rounds) (filter (\<lambda>c. ClientId c \<notin> set ?ids) ?cs1) cs'"
    by (auto simp add: sent restored)
  have id1: "ClientId (fst (?send c)) = ClientId c" for c
    using send_messages_receiver by simp
  have failed: "ClientId c \<in> set ?ids \<longleftrightarrow> snd (?send c)" if c: "c \<in> set (IgtlClients s)" for c
  proof
    assume "ClientId c \<in> set ?ids"
    then obtain c' where c': "c' \<in> set (IgtlClients s)" "snd (?send c')" "ClientId c' = ClientId c"
      by auto
    with c d have "c' = c"
      by (meson distinct_map inj_onD)
    with c' show "snd (?send c)" by simp
  next
    assume "snd (?send c)"
    with c show "ClientId c \<in> set ?ids" by auto
  qed
  have good: "\<exists>c'\<in>set cs'.
                ClientId c' = ClientId c
                \<and> delivered (ClientSocket c') = delivered (ClientSocket c) @ packed_for s c ?f
                \<and> LastTDATASentTimeStamp (ClientInfo c')
                    = (if packed_for s c ?f = [] then LastTDATASentTimeStamp (ClientInfo c)
                       else GetUniversalTimeFromSystemTime s (Timestamp trackedFrame))"
    if c: "c \<in> set (IgtlClients s)" and n: "0 < NumberOfRetryAttempts s"
      and acc: "accepts (ClientSocket c) (length (packed_for s c ?f))" for c
  proof -
    from n have "0 < ?n" by simp
    from send_messages_accepted [OF this, of c "fst (snd (PackMessages s (ClientInfo c) ?f))"
           "Timestamp ?f"] acc
    have ok: "\<not> snd (?send c)"
      and del: "delivered (ClientSocket (fst (?send c)))
                  = delivered (ClientSocket c) @ packed_for s c ?f"
      and last: "LastTDATASentTimeStamp (ClientInfo (fst (?send c)))
                  = (if packed_for s c ?f = [] then LastTDATASentTimeStamp (ClientInfo c)
                     else Timestamp ?f)"
      by (simp_all add: packed_for_def)
    from ok failed [OF c] have "ClientId c \<notin> set ?ids"
      by simp
    with c have "fst (?send c) \<in> set (filter (\<lambda>c. ClientId c \<notin> set ?ids) ?cs1)"
      by (simp add: id1)
    from list_all2_pick [OF p this]
    obtain c' where c': "c' \<in> set cs'" "progressed rounds (fst (?send c)) c'"
      by blast
    then have same: "ClientId c' = ClientId (fst (?send c))"
        "ClientSocket c' = ClientSocket (fst (?send c))"
        "ClientInfo c' = ClientInfo (fst (?send c))"
      by (simp_all add: progressed_def client_view_def)
    have ts: "Timestamp ?f = GetUniversalTimeFromSystemTime s (Timestamp trackedFrame)"
      by (simp add: universal_frame_def)
    have e1: "ClientId c' = ClientId c"
      unfolding same by (rule id1)
    have e2: "delivered (ClientSocket c') = delivered (ClientSocket c) @ packed_for s c ?f"
      unfolding same by (rule del)
    have e3: "LastTDATASentTimeStamp (ClientInfo c')
                = (if packed_for s c ?f = [] then LastTDATASentTimeStamp (ClientInfo c)
                   else GetUniversalTimeFromSystemTime s (Timestamp trackedFrame))"
      using last unfolding same ts by simp
    from c'(1) e1 e2 e3 show ?thesis
      by blast
  qed
  have bad: "ClientId c \<notin> ClientId ` set cs'"
    if c: "c \<in> set (IgtlClients s)" and msgs: "packed_for s c ?f \<noteq> []"
      and fails: "\<not> send_succeeds ?n (sendResult (ClientSocket c)) (sendCount (ClientSocket c))"
    for c
  proof -
    have "snd (?send c)"
      using msgs fails by (intro send_messages_rejected) (simp_all add: packed_for_def)
    with failed [OF c] have "ClientId c \<in> set ?ids"
      by simp
    moreover have "map ClientId cs' = map ClientId (filter (\<lambda>c. ClientId c \<notin> set ?ids) ?cs1)"
      using p by (rule progressed_list_ids)
    then have "ClientId ` set cs' = ClientId ` set (filter (\<lambda>c. ClientId c \<notin> set ?ids) ?cs1)"
      by (metis list.set_map)
    ultimately show ?thesis
      by auto
  qed
  show ?thesis
    using run good bad
    by (intro exI [of _ sendStatus] exI [of _ "s\<lparr>IgtlClients := cs'\<rparr>"]) simp
qed

text \<open>
  Claim C10. Whenever \<^verbatim>\<open>SendTrackedFrame\<close> returns, the tracked frame of the caller
  has the timestamp it had before the call, whatever the clients, the results of the
  sends and the packing of the messages are. It returns when the ids of the clients are
  distinct and the receiver threads of the clients close within the rounds of the wait.
  When moreover the packing leaves the frame as it is, the frame is returned as it was,
  and the messages were packed from and sent with the universal time as timestamp: a
  client whose socket accepts its messages is connected afterwards and has received,
  after what it had, the messages packed for it from the frame with the universal time,
  which is also the time of its last TDATA if there was a message; a client with a
  message for which every attempt to send fails is not connected afterwards.
\<close>

theorem SendTrackedFrame_restores_timestamp:
  "(\<forall>sendStatus s' trackedFrame'.
      SendTrackedFrame rounds s trackedFrame = Some (sendStatus, s', trackedFrame') \<longrightarrow>
      Timestamp trackedFrame' = Timestamp trackedFrame)
   \<and> (distinct (map ClientId (IgtlClients s)) \<and> 0 < rounds
        \<and> (\<forall>c\<in>set (IgtlClients s). receiver_closes_within rounds c) \<longrightarrow>
      (\<exists>sendStatus s' trackedFrame'.
         SendTrackedFrame rounds s trackedFrame = Some (sendStatus, s', trackedFrame')
         \<and> ((\<forall>c\<in>set (IgtlClients s).
                snd (snd (PackMessages s (ClientInfo c) (universal_frame s trackedFrame)))
                  = universal_frame s trackedFrame) \<longrightarrow>
            trackedFrame' = trackedFrame
            \<and> (\<forall>c\<in>set (IgtlClients s).
                  0 < NumberOfRetryAttempts s
                  \<and> accepts (ClientSocket c)
                      (length (packed_for s c (universal_frame s trackedFrame))) \<longrightarrow>
                  (\<exists>c'\<in>set (IgtlClients s').
                     ClientId c' = ClientId c
                     \<and> delivered (ClientSocket c')
                         = delivered (ClientSocket c)
                           @ packed_for s c (universal_frame s trackedFrame)
                     \<and> LastTDATASentTimeStamp (ClientInfo c')
                         = (if packed_for s c (universal_frame s trackedFrame) = []
                            then LastTDATASentTimeStamp (ClientInfo c)
                            else GetUniversalTimeFromSystemTime s (Timestamp trackedFrame))))
            \<and> (\<forall>c\<in>set (IgtlClients s).
                  packed_for s c (universal_frame s trackedFrame) \<noteq> []
                  \<and> \<not> send_succeeds (nat (NumberOfRetryAttempts s))
                         (sendResult (ClientSocket c)) (sendCount (ClientSocket c)) \<longrightarrow>
                  ClientId c \<notin> ClientId ` set (IgtlClients s')))))"
proof (intro conjI allI impI)
  fix sendStatus s' trackedFrame'
  assume "SendTrackedFrame rounds s trackedFrame = Some (sendStatus, s', trackedFrame')"
  then show "Timestamp trackedFrame' = Timestamp trackedFrame"
    by (auto simp add: SendTrackedFrame_def Let_def split: prod.splits option.splits)
next
  assume a: "distinct (map ClientId (IgtlClients s)) \<and> 0 < rounds
             \<and> (\<forall>c\<in>set (IgtlClients s). receiver_closes_within rounds c)"
  then have d: "distinct (map ClientId (IgtlClients s))" and r: "0 < rounds"
    and closes: "\<forall>c\<in>set (IgtlClients s). receiver_closes_within rounds c"
    by simp_all
  let ?pack = "\<forall>c\<in>set (IgtlClients s).
                 snd (snd (PackMessages s (ClientInfo c) (universal_frame s trackedFrame)))
                   = universal_frame s trackedFrame"
  show "\<exists>sendStatus s' trackedFrame'.
         SendTrackedFrame rounds s trackedFrame = Some (sendStatus, s', trackedFrame')
         \<and> (?pack \<longrightarrow>
            trackedFrame' = trackedFrame
            \<and> (\<forall>c\<in>set (IgtlClients s).
                  0 < NumberOfRetryAttempts s
                  \<and> accepts (ClientSocket c)
                      (length (packed_for s c (universal_frame s trackedFrame))) \<longrightarrow>
                  (\<exists>c'\<in>set (IgtlClients s').
                     ClientId c' = ClientId c
                     \<and> delivered (ClientSocket c')
                         = delivered (ClientSocket c)
                           @ packed_for s c (universal_frame s trackedFrame)
                     \<and> LastTDATASentTimeStamp (ClientInfo c')
                         = (if packed_for s c (universal_frame s trackedFrame) = []
                            then LastTDATASentTimeStamp (ClientInfo c)
                            else GetUniversalTimeFromSystemTime s (Timestamp trackedFrame))))
            \<and> (\<forall>c\<in>set (IgtlClients s).
                  packed_for s c (universal_frame s trackedFrame) \<noteq> []
                  \<and> \<not> send_succeeds (nat (NumberOfRetryAttempts s))
                         (sendResult (ClientSocket c)) (sendCount (ClientSocket c)) \<longrightarrow>
                  ClientId c \<notin> ClientId ` set (IgtlClients s')))"
  proof (cases ?pack)
    case True
    from SendTrackedFrame_delivers [OF d r closes True]
    obtain sendStatus s' where
      "SendTrackedFrame rounds s trackedFrame = Some (sendStatus, s', trackedFrame)
       \<and> (\<forall>c\<in>set (IgtlClients s).
              0 < NumberOfRetryAttempts s
              \<and> accepts (ClientSocket c)
                  (length (packed_for s c (universal_frame s trackedFrame))) \<longrightarrow>
              (\<exists>c'\<in>set (IgtlClients s').
                 ClientId c' = ClientId c
                 \<and> delivered (ClientSocket c')
                     = delivered (ClientSocket c)
                       @ packed_for s c (universal_frame s trackedFrame)
                 \<and> LastTDATASentTimeStamp (ClientInfo c')
                     = (if packed_for s c (universal_frame s trackedFrame) = []
                        then LastTDATASentTimeStamp (ClientInfo c)
                        else GetUniversalTimeFromSystemTime s (Timestamp trackedFrame))))
       \<and> (\<forall>c\<in>set (IgtlClients s).
              packed_for s c (universal_frame s trackedFrame) \<noteq> []
              \<and> \<not> send_succeeds (nat (NumberOfRetryAttempts s))
                     (sendResult (ClientSocket c)) (sendCount (ClientSocket c)) \<longrightarrow>
              ClientId c \<notin> ClientId ` set (IgtlClients s'))"
      by blast
    then show ?thesis
      by (intro exI [of _ sendStatus] exI [of _ s'] exI [of _ trackedFrame]) simp
  next
    case False
    from SendTrackedFrame_returns [OF d r closes, of trackedFrame]
    obtain sendStatus s' trackedFrame' where
      "SendTrackedFrame rounds s trackedFrame = Some (sendStatus, s', trackedFrame')"
      by blast
    with False show ?thesis
      by blast
  qed
qed

text \<open>
  The theorem at the example server, whose timer is 1000 seconds behind the universal
  time, with a frame of the system time 5 and a wait of five rounds at most: the first
  client receives the message with the timestamp 1005, the second client is removed, and
  the frame comes back with the timestamp 5.
\<close>

theorem SendTrackedFrame_restores_timestamp_witness:
  "distinct (map ClientId (IgtlClients example_server))
   \<and> receiver_closes_within 5 (IgtlClients example_server ! 0)
   \<and> receiver_closes_within 5 (IgtlClients example_server ! 1)
   \<and> snd (snd (PackMessages example_server default_client_info
                 (universal_frame example_server example_frame)))
       = universal_frame example_server example_frame
   \<and> packed_for example_server (IgtlClients example_server ! 0)
         (universal_frame example_server example_frame)
       = [FrameMessage ''TRANSFORM'' 1005 9]
   \<and> accepts (ClientSocket (IgtlClients example_server ! 0)) 1
   \<and> \<not> send_succeeds 10 (sendResult (ClientSocket (IgtlClients example_server ! 1)))
           (sendCount (ClientSocket (IgtlClients example_server ! 1)))
   \<and> SendTrackedFrame 5 example_server example_frame
       = Some (PLUS_SUCCESS,
               example_server
                 \<lparr>IgtlClients :=
                    [\<lparr>ClientId = 1,
                      ClientSocket =
                        open_socket\<lparr>sendCount := 1,
                                    delivered := [FrameMessage ''TRANSFORM'' 1005 9]\<rparr>,
                      ClientInfo = default_client_info\<lparr>LastTDATASentTimeStamp := 1005\<rparr>,
                      DataReceiverThreadId = 11, DataReceiverActive = (True, True),
                      receiverThread = Running 0\<rparr>]\<rparr>,
               example_frame)
   \<and> Timestamp example_frame = 5"
proof -
  have d: "distinct (map ClientId (IgtlClients example_server))"
    by (simp add: example_server_def)
  have closes: "receiver_closes_within 5 (IgtlClients example_server ! 0)"
      "receiver_closes_within 5 (IgtlClients example_server ! 1)"
    by (simp_all add: receiver_closes_within_def example_server_def)
  have all_close: "\<forall>c\<in>set (IgtlClients example_server). receiver_closes_within 5 c"
    using closes by (simp add: example_server_def)
  have pack: "snd (snd (PackMessages example_server default_client_info
                          (universal_frame example_server example_frame)))
                = universal_frame example_server example_frame"
    by (simp add: example_server_def)
  have packed: "packed_for example_server (IgtlClients example_server ! 0)
                  (universal_frame example_server example_frame)
                = [FrameMessage ''TRANSFORM'' 1005 9]"
    by (simp add: packed_for_def universal_frame_def example_server_def example_frame_def)
  have acc: "accepts (ClientSocket (IgtlClients example_server ! 0)) 1"
    by (simp add: accepts_def example_server_def open_socket_def)
  have fails: "\<not> send_succeeds 10 (sendResult (ClientSocket (IgtlClients example_server ! 1)))
                    (sendCount (ClientSocket (IgtlClients example_server ! 1)))"
    by (simp add: example_server_def open_socket_def eval_nat_numeral)
  have run: "SendTrackedFrame 5 example_server example_frame
       = Some (PLUS_SUCCESS,
               example_server
                 \<lparr>IgtlClients :=
                    [\<lparr>ClientId = 1,
                      ClientSocket =
                        open_socket\<lparr>sendCount := 1,
                                    delivered := [FrameMessage ''TRANSFORM'' 1005 9]\<rparr>,
                      ClientInfo = default_client_info\<lparr>LastTDATASentTimeStamp := 1005\<rparr>,
                      DataReceiverThreadId = 11, DataReceiverActive = (True, True),
                      receiverThread = Running 0\<rparr>]\<rparr>,
               example_frame)"
    by (simp add: SendTrackedFrame_def example_server_def example_frame_def open_socket_def
          default_client_info_def DisconnectClient_def receiver_thread_step_def Send_def
          eval_nat_numeral)
  have ts: "Timestamp example_frame = 5"
    by (simp add: example_frame_def)
  from SendTrackedFrame_restores_timestamp [of 5 example_server example_frame]
       d closes pack packed acc fails run ts
  show ?thesis
    by simp
qed

text \<open>
  With a second client whose receiver thread has left without closing, the call does not
  return: whatever the number of rounds, the wait for that thread has not ended.
\<close>

lemma SendTrackedFrame_never_returns:
  "SendTrackedFrame rounds stuck_server example_frame = None"
proof -
  let ?c1 = "\<lparr>ClientId = 1,
              ClientSocket =
                open_socket\<lparr>sendCount := 1,
                            delivered := [FrameMessage ''TRANSFORM'' 1005 9]\<rparr>,
              ClientInfo = default_client_info\<lparr>LastTDATASentTimeStamp := 1005\<rparr>,
              DataReceiverThreadId = 11, DataReceiverActive = (True, True),
              receiverThread = Running 0\<rparr>"
  let ?c2 = "\<lparr>ClientId = 2,
              ClientSocket = open_socket\<lparr>sendResult := (\<lambda>k. 0), sendCount := 10\<rparr>,
              ClientInfo = default_client_info,
              DataReceiverThreadId = 12, DataReceiverActive = (True, True),
              receiverThread = Returned\<rparr>"
  have sent: "send_to_clients stuck_server (IgtlClients stuck_server)
                (universal_frame stuck_server example_frame)
              = ([?c1, ?c2], [2], universal_frame stuck_server example_frame)"
    by (simp add: stuck_server_def example_server_def example_frame_def open_socket_def
          default_client_info_def universal_frame_def Send_def eval_nat_numeral)
  have "DisconnectClient rounds (stuck_server\<lparr>IgtlClients := [?c1, ?c2]\<rparr>) 2 = None"
    by (rule DisconnectClient_never_returns [of _ ?c2]) simp_all
  with sent show ?thesis
    by (simp add: SendTrackedFrame_def universal_frame_def Let_def)
qed

section \<open>Properties of the data sender\<close>

lemma c_div_positive:
  "0 < b \<Longrightarrow> c_div a b = quotient_towards_zero a b"
  by (simp add: c_div_def quotient_towards_zero_def sgn_if)

lemma numberOfFramesToGet_eq:
  "numberOfFramesToGet s =
     min (max (quotient_towards_zero (MaxTimeSpentWithProcessingMs s)
                 (max (LastProcessingTimePerFrameMs s) 1)) 1)
       (MaxNumberOfIgtlMessagesToSend s)"
proof -
  have "LastProcessingTimePerFrameMs (raise_processing_time s)
          = max (LastProcessingTimePerFrameMs s) 1"
    by (simp add: raise_processing_time_def max_def)
  moreover have "MaxTimeSpentWithProcessingMs (raise_processing_time s)
                   = MaxTimeSpentWithProcessingMs s"
      "MaxNumberOfIgtlMessagesToSend (raise_processing_time s) = MaxNumberOfIgtlMessagesToSend s"
    by (simp_all add: raise_processing_time_def)
  moreover have "0 < max (LastProcessingTimePerFrameMs s) 1"
    by simp
  ultimately show ?thesis
    by (simp only: numberOfFramesToGet_def c_div_positive)
qed

lemma numberOfFramesToGet_spec:
  "numberOfFramesToGet s \<le> pull_count_spec s"
  "1 \<le> MaxNumberOfIgtlMessagesToSend s \<Longrightarrow> numberOfFramesToGet s = pull_count_spec s"
  "MaxNumberOfIgtlMessagesToSend s < 1
     \<Longrightarrow> numberOfFramesToGet s = MaxNumberOfIgtlMessagesToSend s"
  by (simp_all add: numberOfFramesToGet_eq pull_count_spec_def clamp_def min_def max_def)

lemma acquire_frames_no_channel:
  "BroadcastChannel s = None \<Longrightarrow> snd (acquire_frames s) = []"
  by (simp add: acquire_frames_def raise_processing_time_def Let_def)

lemma acquire_frames_no_data:
  assumes "BroadcastChannel s = Some ch"
    and "\<not> data_available ch \<or> OldestTimestamp ch = None"
  shows "snd (acquire_frames s) = []"
    and "LastSentTrackedFrameTimestamp (fst (acquire_frames s)) = LastSentTrackedFrameTimestamp s"
  using assms
  by (auto simp add: acquire_frames_def raise_processing_time_def data_available_def Let_def
        split: option.splits)

lemma acquire_frames_pull:
  assumes "BroadcastChannel s = Some ch" and "data_available ch"
    and "OldestTimestamp ch = Some oldest"
  shows "snd (acquire_frames s) =
           fst (snd (GetTrackedFrameList ch
                       (if LastSentTrackedFrameTimestamp s < oldest then oldest + 1/10
                        else LastSentTrackedFrameTimestamp s)
                       (numberOfFramesToGet s)))"
    and "LastSentTrackedFrameTimestamp (fst (acquire_frames s)) =
           snd (snd (GetTrackedFrameList ch
                       (if LastSentTrackedFrameTimestamp s < oldest then oldest + 1/10
                        else LastSentTrackedFrameTimestamp s)
                       (numberOfFramesToGet s)))"
  using assms
  by (auto simp add: acquire_frames_def raise_processing_time_def data_available_def Let_def
        SAMPLING_SKIPPING_MARGIN_SEC_def split: prod.splits)

lemma acquire_frames_raises:
  "LastProcessingTimePerFrameMs (fst (acquire_frames s))
     = max (LastProcessingTimePerFrameMs s) 1"
  by (simp add: acquire_frames_def raise_processing_time_def Let_def max_def
        split: option.splits prod.splits)

text \<open>
  Claim C8. A cycle first raises \<^verbatim>\<open>LastProcessingTimePerFrameMs\<close> to 1 at least.
  The number of frames it asks for is at most the pull count of the specification; it is
  that pull count when \<^verbatim>\<open>MaxNumberOfIgtlMessagesToSend\<close> is 1 at least, and
  \<^verbatim>\<open>MaxNumberOfIgtlMessagesToSend\<close> itself otherwise. Without channel, without the
  data of a source or without an oldest timestamp the cycle pulls no frame. Otherwise it
  pulls the answer of the channel to the request for that number of frames since
  \<^verbatim>\<open>LastSentTrackedFrameTimestamp\<close>, which is first moved to a tenth of a second
  after the oldest timestamp when it is before the oldest timestamp, and it stores the
  timestamp that the channel gives back. When the channel never answers with more frames
  than it is asked for, the cycle pulls at most the pull count of the specification.
\<close>

theorem sender_pull_count:
  "LastProcessingTimePerFrameMs (fst (acquire_frames s))
     = max (LastProcessingTimePerFrameMs s) 1
   \<and> numberOfFramesToGet s \<le> pull_count_spec s
   \<and> (1 \<le> MaxNumberOfIgtlMessagesToSend s \<longrightarrow> numberOfFramesToGet s = pull_count_spec s)
   \<and> (MaxNumberOfIgtlMessagesToSend s < 1 \<longrightarrow>
         numberOfFramesToGet s = MaxNumberOfIgtlMessagesToSend s)
   \<and> (BroadcastChannel s = None \<longrightarrow> snd (acquire_frames s) = [])
   \<and> (\<forall>ch. BroadcastChannel s = Some ch \<longrightarrow>
         (\<not> data_available ch \<or> OldestTimestamp ch = None \<longrightarrow>
            snd (acquire_frames s) = []
            \<and> LastSentTrackedFrameTimestamp (fst (acquire_frames s))
                = LastSentTrackedFrameTimestamp s)
         \<and> (\<forall>oldest. data_available ch \<and> OldestTimestamp ch = Some oldest \<longrightarrow>
               snd (acquire_frames s) =
                 fst (snd (GetTrackedFrameList ch
                             (if LastSentTrackedFrameTimestamp s < oldest then oldest + 1/10
                              else LastSentTrackedFrameTimestamp s)
                             (numberOfFramesToGet s)))
               \<and> LastSentTrackedFrameTimestamp (fst (acquire_frames s)) =
                   snd (snd (GetTrackedFrameList ch
                               (if LastSentTrackedFrameTimestamp s < oldest then oldest + 1/10
                                else LastSentTrackedFrameTimestamp s)
                               (numberOfFramesToGet s))))
         \<and> ((\<forall>ts n. length (fst (snd (GetTrackedFrameList ch ts n))) \<le> nat n) \<longrightarrow>
               length (snd (acquire_frames s)) \<le> nat (pull_count_spec s)))"
proof (intro conjI allI impI)
  show "LastProcessingTimePerFrameMs (fst (acquire_frames s))
          = max (LastProcessingTimePerFrameMs s) 1"
    by (rule acquire_frames_raises)
next
  show "numberOfFramesToGet s \<le> pull_count_spec s"
    by (rule numberOfFramesToGet_spec)
next
  assume "1 \<le> MaxNumberOfIgtlMessagesToSend s"
  then show "numberOfFramesToGet s = pull_count_spec s"
    by (rule numberOfFramesToGet_spec)
next
  assume "MaxNumberOfIgtlMessagesToSend s < 1"
  then show "numberOfFramesToGet s = MaxNumberOfIgtlMessagesToSend s"
    by (rule numberOfFramesToGet_spec)
next
  assume "BroadcastChannel s = None"
  then show "snd (acquire_frames s) = []"
    by (rule acquire_frames_no_channel)
next
  fix ch
  assume "BroadcastChannel s = Some ch" and "\<not> data_available ch \<or> OldestTimestamp ch = None"
  then show "snd (acquire_frames s) = []"
    by (rule acquire_frames_no_data)
next
  fix ch
  assume "BroadcastChannel s = Some ch" and "\<not> data_available ch \<or> OldestTimestamp ch = None"
  then show "LastSentTrackedFrameTimestamp (fst (acquire_frames s))
               = LastSentTrackedFrameTimestamp s"
    by (rule acquire_frames_no_data)
next
  fix ch oldest
  assume "BroadcastChannel s = Some ch" and "data_available ch \<and> OldestTimestamp ch = Some oldest"
  then show "snd (acquire_frames s) =
               fst (snd (GetTrackedFrameList ch
                           (if LastSentTrackedFrameTimestamp s < oldest then oldest + 1/10
                            else LastSentTrackedFrameTimestamp s)
                           (numberOfFramesToGet s)))"
    by (intro acquire_frames_pull) simp_all
next
  fix ch oldest
  assume "BroadcastChannel s = Some ch" and "data_available ch \<and> OldestTimestamp ch = Some oldest"
  then show "LastSentTrackedFrameTimestamp (fst (acquire_frames s)) =
               snd (snd (GetTrackedFrameList ch
                           (if LastSentTrackedFrameTimestamp s < oldest then oldest + 1/10
                            else LastSentTrackedFrameTimestamp s)
                           (numberOfFramesToGet s)))"
    by (intro acquire_frames_pull) simp_all
next
  fix ch
  assume ch: "BroadcastChannel s = Some ch"
    and contract: "\<forall>ts n. length (fst (snd (GetTrackedFrameList ch ts n))) \<le> nat n"
  have "length (snd (acquire_frames s)) \<le> nat (numberOfFramesToGet s)"
  proof (cases "data_available ch \<and> OldestTimestamp ch \<noteq> None")
    case True
    then obtain oldest where "data_available ch" "OldestTimestamp ch = Some oldest"
      by auto
    from acquire_frames_pull(1) [OF ch this] contract show ?thesis
      by simp
  next
    case False
    then have "\<not> data_available ch \<or> OldestTimestamp ch = None"
      by simp
    from acquire_frames_no_data(1) [OF ch this] show ?thesis
      by simp
  qed
  also have "\<dots> \<le> nat (pull_count_spec s)"
    using numberOfFramesToGet_spec(1) [of s] by simp
  finally show "length (snd (acquire_frames s)) \<le> nat (pull_count_spec s)" .
qed

text \<open>
  The theorem at the example server with the channel of five frames: the pull count is
  50 / 20 = 2, the frames are asked for since the timestamp 1.1, and of the four frames
  after it the cycle pulls the first two.
\<close>

theorem sender_pull_count_witness:
  "1 \<le> MaxNumberOfIgtlMessagesToSend pulling_server
   \<and> BroadcastChannel pulling_server = Some steady_channel
   \<and> data_available steady_channel \<and> OldestTimestamp steady_channel = Some 1
   \<and> (\<forall>ts n. length (fst (snd (GetTrackedFrameList steady_channel ts n))) \<le> nat n)
   \<and> pull_count_spec pulling_server = 2
   \<and> numberOfFramesToGet pulling_server = 2
   \<and> LastProcessingTimePerFrameMs (fst (acquire_frames pulling_server)) = 20
   \<and> snd (acquire_frames pulling_server)
       = [\<lparr>Timestamp = 2, frameContent = 2\<rparr>, \<lparr>Timestamp = 3, frameContent = 3\<rparr>]
   \<and> fst (snd (GetTrackedFrameList steady_channel (1 + 1/10) 2))
       = [\<lparr>Timestamp = 2, frameContent = 2\<rparr>, \<lparr>Timestamp = 3, frameContent = 3\<rparr>]
   \<and> LastSentTrackedFrameTimestamp (fst (acquire_frames pulling_server)) = 3"
proof -
  have m: "1 \<le> MaxNumberOfIgtlMessagesToSend pulling_server"
    by (simp add: pulling_server_def example_server_def)
  have ch: "BroadcastChannel pulling_server = Some steady_channel"
    by (simp add: pulling_server_def)
  have av: "data_available steady_channel \<and> OldestTimestamp steady_channel = Some 1"
    by (simp add: data_available_def steady_channel_def)
  have contract: "\<forall>ts n. length (fst (snd (GetTrackedFrameList steady_channel ts n))) \<le> nat n"
    by (simp add: steady_channel_def)
  have spec: "pull_count_spec pulling_server = 2"
    by (simp add: pull_count_spec_def clamp_def quotient_towards_zero_def pulling_server_def
          example_server_def)
  have last: "LastSentTrackedFrameTimestamp pulling_server = 0"
    by (simp add: pulling_server_def example_server_def)
  have l: "LastProcessingTimePerFrameMs pulling_server = 20"
    by (simp add: pulling_server_def)
  have answer: "GetTrackedFrameList steady_channel (1 + 1/10) 2
      = (PLUS_SUCCESS,
         [\<lparr>Timestamp = 2, frameContent = 2\<rparr>, \<lparr>Timestamp = 3, frameContent = 3\<rparr>], 3)"
    by (simp add: steady_channel_def five_frames_def eval_nat_numeral)
  from sender_pull_count [of pulling_server] m ch av
  have "numberOfFramesToGet pulling_server = 2
     \<and> LastProcessingTimePerFrameMs (fst (acquire_frames pulling_server)) = 20
     \<and> snd (acquire_frames pulling_server)
         = fst (snd (GetTrackedFrameList steady_channel (1 + 1/10) 2))
     \<and> LastSentTrackedFrameTimestamp (fst (acquire_frames pulling_server))
         = snd (snd (GetTrackedFrameList steady_channel (1 + 1/10) 2))"
    by (simp add: spec last l)
  with m ch av contract spec answer show ?thesis
    by simp
qed

section \<open>Properties of the keep-alive\<close>







text \<open>
  With a second client whose receiver thread has left without closing, the cycle does
  not return: whatever the number of rounds, the wait for that thread has not ended.
\<close>

lemma keep_alive_never_returns:
  "SendLatestFramesToClients rounds stuck_server (1/8) quarter_second_cycle = None"
proof -
  let ?s1 = "stuck_server\<lparr>LastProcessingTimePerFrameMs := 1\<rparr>"
  let ?c1 = "\<lparr>ClientId = 1,
              ClientSocket = open_socket\<lparr>sendCount := 1, delivered := [StatusMessage_OK]\<rparr>,
              ClientInfo = default_client_info,
              DataReceiverThreadId = 11, DataReceiverActive = (True, True),
              receiverThread = Running 0\<rparr>"
  let ?c2 = "\<lparr>ClientId = 2,
              ClientSocket = open_socket\<lparr>sendResult := (\<lambda>k. 0), sendCount := 10\<rparr>,
              ClientInfo = default_client_info,
              DataReceiverThreadId = 12, DataReceiverActive = (True, True),
              receiverThread = Returned\<rparr>"
  have pulled: "acquire_frames stuck_server = (?s1, [])"
    by (simp add: acquire_frames_def stuck_server_def example_server_def
          raise_processing_time_def)
  have sent: "keep_alive_clients (nat (NumberOfRetryAttempts ?s1)) (IgtlClients ?s1)
                = ([?c1, ?c2], [2])"
    by (simp add: stuck_server_def example_server_def open_socket_def Send_def
          eval_nat_numeral)
  have "DisconnectClient rounds (?s1\<lparr>IgtlClients := [?c1, ?c2]\<rparr>) 2 = None"
    by (rule DisconnectClient_never_returns [of _ ?c2]) simp_all
  with sent have "KeepAlive rounds ?s1 = None"
    by (simp add: KeepAlive_def)
  with pulled show ?thesis
    by (simp add: SendLatestFramesToClients_def stuck_server_def example_server_def
          quarter_second_cycle_def Let_def)
qed


section \<open>Properties of the receiver thread\<close>

lemma remember_last_n:
  "remember_command_id (last_n 10 xs) u = last_n 10 (xs @ [u])"
proof (cases "length xs < 10")
  case True
  then show ?thesis
    by (simp add: remember_command_id_def last_n_def NUMBER_OF_RECENT_COMMAND_IDS_STORED_def)
next
  case False
  then have "Suc (length xs - 10) = length xs - 9"
    by simp
  with False show ?thesis
    by (simp add: remember_command_id_def last_n_def NUMBER_OF_RECENT_COMMAND_IDS_STORED_def
          drop_Suc [symmetric] tl_drop)
qed

lemma negotiate_header_version_fields:
  "previousCommandIds (negotiate_header_version pv hv r) = previousCommandIds r"
  "queuedCommands (negotiate_header_version pv hv r) = queuedCommands r"
  "queuedStringResponses (negotiate_header_version pv hv r) = queuedStringResponses r"
  "messageResponses (negotiate_header_version pv hv r) = messageResponses r"
  "socketReplies (negotiate_header_version pv hv r) = socketReplies r"
  "threadRunning (negotiate_header_version pv hv r) = threadRunning r"
  by (simp_all add: negotiate_header_version_def)

lemma dispatch_message_window:
  "window_ok r \<Longrightarrow> dispatch_message naming clientId r hv m = Inr r1 \<Longrightarrow> window_ok r1"
  by (cases m)
     (auto simp add: dispatch_message_def receive_string_command_def receive_command_def
        window_ok_def QueueCommand_def QueueStringResponse_def QueueMessageResponseForClient_def
        receive_get_polydata_def remember_last_n Let_def split: if_splits stoi_result.splits)

lemma receive_message_window:
  assumes "window_ok r" and "receive_message naming pv clientId r hv m = Inr r1"
  shows "window_ok r1"
proof (cases "m = ShortRead")
  case True
  with assms show ?thesis
    by (simp add: receive_message_def)
next
  case False
  from assms(1) have "window_ok (negotiate_header_version pv hv r)"
    by (simp add: window_ok_def negotiate_header_version_fields)
  moreover from False assms(2)
  have "dispatch_message naming clientId (negotiate_header_version pv hv r) hv m = Inr r1"
    by (simp add: receive_message_def)
  ultimately show ?thesis
    by (rule dispatch_message_window)
qed

lemma DataReceiverThread_window:
  "window_ok r \<Longrightarrow> DataReceiverThread naming pv clientId r ms = Inr r1 \<Longrightarrow> window_ok r1"
proof (induction ms arbitrary: r)
  case Nil
  then show ?case by simp
next
  case (Cons m ms)
  obtain hv body where m: "m = (hv, body)"
    by (cases m)
  show ?case
  proof (cases "threadRunning r")
    case False
    with Cons.prems m show ?thesis by simp
  next
    case True
    with Cons.prems(2) m obtain r2
      where step: "receive_message naming pv clientId r hv body = Inr r2"
        and rest: "DataReceiverThread naming pv clientId r2 ms = Inr r1"
      by (auto split: sum.splits)
    from receive_message_window [OF Cons.prems(1) step] rest show ?thesis
      by (rule Cons.IH)
  qed
qed

text \<open>
  Claim C3, as the code has it. At any moment of a receiver thread the ids it remembers
  are the ids of the last ten commands it has queued: a repeated command is not
  remembered again. A command whose id is among them, of the newer protocol or a legacy
  string command with a name that parses to the id, changes nothing but the header
  version that the thread stores with every message: it is not queued and no response
  is queued or sent.
\<close>

theorem repeated_command_ignored:
  assumes "DataReceiverThread naming protocolVersion clientId (thread_start info) ms = Inr r"
  shows "previousCommandIds r = last_n 10 (map qUid (queuedCommands r))
     \<and> (uid \<in> set (previousCommandIds r) \<longrightarrow>
          receive_message naming protocolVersion clientId r headerVersion
              (CommandMessage uid name content deviceName unpacked)
            = Inr (negotiate_header_version protocolVersion headerVersion r)
          \<and> (deviceName \<noteq> []
               \<and> stoi naming (GetUidFromCommandDeviceName naming deviceName) = Converted n
               \<and> word_of_int n = uid \<longrightarrow>
             receive_message naming protocolVersion clientId r headerVersion
                 (StringMessage deviceName content unpacked)
               = Inr (negotiate_header_version protocolVersion headerVersion r)))"
proof -
  have "window_ok (thread_start info)"
    by (simp add: window_ok_def thread_start_def last_n_def)
  then have "window_ok r"
    using assms by (rule DataReceiverThread_window)
  then show ?thesis
    by (simp add: window_ok_def receive_message_def dispatch_message_def receive_command_def
          receive_string_command_def already_received_def negotiate_header_version_fields)
qed

text \<open>
  The theorem at the thread that has queued \<^verbatim>\<open>CMD_7\<close>: a second \<^verbatim>\<open>CMD_7\<close>, or
  a command of the newer protocol with the id 7, changes nothing.
\<close>

theorem repeated_command_ignored_witness:
  "DataReceiverThread cmd_naming 3 1 (thread_start default_client_info)
       [(1, StringMessage ''CMD_7'' ''StartRecording'' True)] = Inr after_cmd_7
   \<and> 7 \<in> set (previousCommandIds after_cmd_7)
   \<and> negotiate_header_version 3 1 after_cmd_7 = after_cmd_7
   \<and> receive_message cmd_naming 3 1 after_cmd_7 1
         (CommandMessage 7 ''StartRecording'' ''StartRecording'' ''CMD_7'' True) = Inr after_cmd_7
   \<and> receive_message cmd_naming 3 1 after_cmd_7 1
         (StringMessage ''CMD_7'' ''StartRecording'' True) = Inr after_cmd_7"
proof -
  have run: "DataReceiverThread cmd_naming 3 1 (thread_start default_client_info)
               [(1, StringMessage ''CMD_7'' ''StartRecording'' True)] = Inr after_cmd_7"
    by (simp add: receive_message_def dispatch_message_def receive_string_command_def
          cmd_naming_def thread_start_def after_cmd_7_def already_received_def
          remember_command_id_def QueueCommand_def NUMBER_OF_RECENT_COMMAND_IDS_STORED_def
          negotiate_header_version_def default_client_info_def)
  have mem: "7 \<in> set (previousCommandIds after_cmd_7)"
    by (simp add: after_cmd_7_def)
  have same: "negotiate_header_version 3 1 after_cmd_7 = after_cmd_7"
    by (simp add: negotiate_header_version_def after_cmd_7_def thread_start_def
          default_client_info_def)
  have name: "''CMD_7'' \<noteq> []
      \<and> stoi cmd_naming (GetUidFromCommandDeviceName cmd_naming ''CMD_7'') = Converted 7
      \<and> (word_of_int 7 :: 32 word) = 7"
    by (simp add: cmd_naming_def)
  from repeated_command_ignored
         [OF run, of 7 1 "''StartRecording''" "''StartRecording''" "''CMD_7''" True 7]
       mem name run same
  show ?thesis
    by simp
qed

text \<open>
  Claim C3 as stated fails. After the commands 1 to 10, the command 1 again (ignored) and
  the command 11, the id 1 is among the last ten ids received, yet the next command 1
  is queued again.
\<close>

theorem command_repeated_after_eviction:
  "(1::32 word) \<in> set (last_n 10 [1, 2, 3, 4, 5, 6, 7, 8, 9, 10, 1, 11])
   \<and> (case DataReceiverThread cmd_naming 3 1 (thread_start default_client_info)
              (map (\<lambda>uid. (1, v3_command uid)) [1, 2, 3, 4, 5, 6, 7, 8, 9, 10, 1, 11, 1]) of
         Inl e \<Rightarrow> False
       | Inr r \<Rightarrow> map qUid (queuedCommands r) = [1, 2, 3, 4, 5, 6, 7, 8, 9, 10, 11, 1])"
  by (simp add: last_n_def thread_start_def v3_command_def receive_message_def
        dispatch_message_def receive_command_def already_received_def remember_command_id_def
        QueueCommand_def NUMBER_OF_RECENT_COMMAND_IDS_STORED_def negotiate_header_version_def)

section \<open>Properties of the stray matcher\<close>

lemma DBL_MAX_large: "1000 < DBL_MAX"
  by (simp add: DBL_MAX_def)

lemma sqrt_ne_DBL_MAX: "x \<le> 1000000 \<Longrightarrow> sqrt x \<noteq> DBL_MAX"
proof -
  assume "x \<le> 1000000"
  then have "x \<le> 1000\<^sup>2" by simp
  then have "sqrt x \<le> sqrt (1000\<^sup>2)" by (simp only: real_sqrt_le_iff)
  then have "sqrt x \<le> 1000" by simp
  then show ?thesis using DBL_MAX_large by linarith
qed

lemma upt_small: "[0..<2] = [0, 1]" "[0..<3] = [0, 1, 2]"
  by (simp_all add: upt_rec)

lemma three_slots_fields:
  "MaxNumberOfStrays (three_slots t s1 s2 s3) = 3"
  "LastStraysPos (three_slots t s1 s2 s3) = [(0, 0, 10), (10, 0, 10), (0, 10, 10)]"
  "LastStraysStatus (three_slots t s1 s2 s3) = [s1, s2, s3]"
  by (simp_all add: three_slots_def)

lemma sorted_distances:
  "SortDistanceStrays (three_slots t s1 s2 s3)
     (GetDistanceStrays (three_slots t s1 s2 s3) 2 DBL_MAX [(0.1, 0, 10), (0, 10.2, 10)])
   = [[(0, sqrt (1 / 100)), (1, sqrt (2601 / 25))],
      [(0, sqrt (9801 / 100)), (1, sqrt (5101 / 25))],
      [(1, sqrt (1 / 25)), (0, sqrt (10001 / 100))]]"
  by (simp add: SortDistanceStrays_def GetDistanceStrays_def three_slots_fields upt_small
        observed_def distance_def power2_eq_square)

lemma three_slots_matched:
  "MatchStrays (Suc fuel) (three_slots t s1 s2 s3) 2 INT_MAX DBL_MAX
     [[(0, sqrt (1 / 100)), (1, sqrt (2601 / 25))],
      [(0, sqrt (9801 / 100)), (1, sqrt (5101 / 25))],
      [(1, sqrt (1 / 25)), (0, sqrt (10001 / 100))]]
   = Some [0, INT_MAX, 1]"
  by (simp add: MatchStrays_def initial_match_def three_slots_fields upt_small sqrt_ne_DBL_MAX
        betterMatchAlreadyExist_def INT_MAX_def numeral_2_eq_2 numeral_3_eq_3)

lemma three_slots_updated:
  "UpdateLastStraysData (three_slots t s1 s2 s3) 2 INT_MAX [0, INT_MAX, 1] [(0.1, 0, 10), (0, 10.2, 10)]
    = (three_slots t s1 s2 s3)\<lparr>LastStraysPos := [(0.1, 0, 10), (10, 0, 10), (0, 10.2, 10)],
          LastStraysStatus := [TOOL_OK, TOOL_MISSING, TOOL_OK]\<rparr>"
  by (simp add: UpdateLastStraysData_def unusedStrays_of_def three_slots_fields upt_small INT_MAX_def numeral_3_eq_3)

text \<open>
  Claim C1. With three slots at (0,0,10), (10,0,10) and (0,10,10) and the observations
  (0.1,0,10) and (0,10.2,10), one matching pass, for any positive number of passes
  allowed to the conflict resolution, gives observation 0 to the first slot, no
  observation to the second and observation 1 to the third; the first and the third
  slot take the observed positions with status OK, the second keeps its position with
  status MISSING.
\<close>

theorem stray_matching_three_to_two:
  "MatchStrays (Suc fuel) (three_slots t s1 s2 s3) 2 INT_MAX DBL_MAX
     (SortDistanceStrays (three_slots t s1 s2 s3)
        (GetDistanceStrays (three_slots t s1 s2 s3) 2 DBL_MAX [(0.1, 0, 10), (0, 10.2, 10)]))
     = Some [0, INT_MAX, 1]
   \<and> update_strays (Suc fuel) (three_slots t s1 s2 s3) [(0.1, 0, 10), (0, 10.2, 10)]
     = Some ((three_slots t s1 s2 s3)\<lparr>LastStraysPos := [(0.1, 0, 10), (10, 0, 10), (0, 10.2, 10)],
          LastStraysStatus := [TOOL_OK, TOOL_MISSING, TOOL_OK]\<rparr>)"
proof -
  have len: "length [(0.1::real, 0::real, 10::real), (0, 10.2, 10)] = 2"
    by simp
  show ?thesis
    using three_slots_updated [of t s1 s2 s3]
    unfolding update_strays_def Let_def len sorted_distances three_slots_matched
    by (simp add: three_slots_fields)
qed

subsection \<open>The update of the slots\<close>

lemma none_rank_Suc:
  "i < k \<Longrightarrow> none_rank f m i k = (if m ! i = f then Suc (none_rank f m (Suc i) k) else none_rank f m (Suc i) k)"
  by (simp add: none_rank_def upt_conv_Cons)

lemma update_slots_before_fst:
  "k < i \<Longrightarrow> fst (update_slots r i f m sp (pos, status, unused)) ! k = pos ! k
     \<and> fst (snd (update_slots r i f m sp (pos, status, unused))) ! k = status ! k"
  by (induction r arbitrary: i pos status unused) simp_all

lemma update_slots_slot:
  assumes "i \<le> k" and "k < i + r" and "i + r \<le> length pos" and "i + r \<le> length status"
  shows "fst (update_slots r i f m sp (pos, status, unused)) ! k =
           (if m ! k \<noteq> f then sp ! nat (m ! k)
            else if none_rank f m i k < length unused then sp ! nat (unused ! none_rank f m i k)
            else pos ! k)
       \<and> fst (snd (update_slots r i f m sp (pos, status, unused))) ! k =
           (if m ! k \<noteq> f then TOOL_OK
            else if none_rank f m i k < length unused then TOOL_OK
            else TOOL_MISSING)"
  using assms
proof (induction r arbitrary: i pos status unused)
  case 0
  then show ?case by simp
next
  case (Suc r)
  show ?case
  proof (cases "k = i")
    case True
    with Suc.prems show ?thesis
      by (simp add: update_slots_before_fst none_rank_def)
  next
    case False
    with Suc.prems have ik: "Suc i \<le> k" "k < Suc i + r" "i < k"
      by simp_all
    have tl_nth: "unused \<noteq> [] \<Longrightarrow> tl unused ! j = unused ! Suc j" for j
      by (cases unused) simp_all
    have tl_len: "(j < length unused - Suc 0) = (Suc j < length unused)" for j
      by auto
    from Suc.prems ik show ?thesis
      by (simp add: Suc.IH none_rank_Suc tl_nth tl_len)
  qed
qed

subsection \<open>The invariant of the conflict resolution\<close>

lemma better_iff:
  "betterMatchAlreadyExist M mmi md i c \<longleftrightarrow> (\<exists>k<M. k \<noteq> i \<and> fst c = mmi ! k \<and> md ! k < snd c)"
  by (auto simp add: betterMatchAlreadyExist_def list_ex_iff)

lemma better_own_slot:
  "betterMatchAlreadyExist M (mmi[i := v]) (md[i := d]) i c = betterMatchAlreadyExist M mmi md i c"
  by (auto simp add: better_iff)

lemma better_transfer:
  assumes "betterMatchAlreadyExist M mmi md i' c"
    and "\<exists>k<M. k \<noteq> i \<and> mmi ! k = mmi ! i \<and> md ! k < md ! i"
    and "mmi ! i' \<noteq> fst c"
  shows "betterMatchAlreadyExist M (mmi[i := v]) (md[i := d]) i' c"
proof -
  from assms(1) obtain k where k: "k < M" "k \<noteq> i'" "fst c = mmi ! k" "md ! k < snd c"
    by (auto simp add: better_iff)
  show ?thesis
  proof (cases "k = i")
    case False
    with k show ?thesis
      by (auto simp add: better_iff)
  next
    case True
    from assms(2) obtain k' where k': "k' < M" "k' \<noteq> i" "mmi ! k' = mmi ! i" "md ! k' < md ! i"
      by auto
    with k True assms(3) have "k' \<noteq> i'" "fst c = mmi ! k'" "md ! k' < snd c"
      by auto
    with k' show ?thesis
      unfolding better_iff by (intro exI [of _ k']) simp
  qed
qed

lemma slot_inv_other:
  assumes rows: "rows_ok M n noMatchFlag dists"
    and inv: "slot_inv M n noMatchFlag maxDistance dists (mmi, md) i'"
    and i': "i' < M" "i' \<noteq> i"
    and beaten: "\<exists>k<M. k \<noteq> i \<and> mmi ! k = mmi ! i \<and> md ! k < md ! i"
  shows "slot_inv M n noMatchFlag maxDistance dists (mmi[i := v], md[i := d]) i'"
proof -
  from rows i' have row: "length (dists ! i') = n" "distinct (map fst (dists ! i'))"
      "noMatchFlag \<notin> fst ` set (dists ! i')"
    by (simp_all add: rows_ok_def)
  show ?thesis
  proof (cases "mmi ! i' = noMatchFlag")
    case True
    have "betterMatchAlreadyExist M (mmi[i := v]) (md[i := d]) i' (dists ! i' ! q)"
      if "q < n" "betterMatchAlreadyExist M mmi md i' (dists ! i' ! q)" for q
    proof -
      from that(1) row have "fst (dists ! i' ! q) \<noteq> noMatchFlag"
        by (metis image_eqI nth_mem)
      with True that(2) beaten show ?thesis
        by (intro better_transfer) simp_all
    qed
    with inv True i' show ?thesis
      by (auto simp add: slot_inv_def)
  next
    case False
    with inv obtain p where p: "p < n" "mmi ! i' = fst (dists ! i' ! p)"
        "md ! i' = snd (dists ! i' ! p)"
        "\<forall>q<p. betterMatchAlreadyExist M mmi md i' (dists ! i' ! q)"
      and obs: "\<forall>c\<in>set (dists ! i'). snd c \<noteq> maxDistance"
      by (auto simp add: slot_inv_def)
    have "betterMatchAlreadyExist M (mmi[i := v]) (md[i := d]) i' (dists ! i' ! q)" if "q < p" for q
    proof -
      from that p(1) row have "map fst (dists ! i') ! q \<noteq> map fst (dists ! i') ! p"
        by (simp add: nth_eq_iff_index_eq del: nth_map)
      with that p(1,2) row have "mmi ! i' \<noteq> fst (dists ! i' ! q)"
        by simp
      with that p(4) beaten show ?thesis
        by (intro better_transfer) simp_all
    qed
    with False p obs i' show ?thesis
      unfolding slot_inv_def by (simp) (intro exI [of _ p], simp)
  qed
qed

lemma match_inv_update:
  assumes rows: "rows_ok M n noMatchFlag dists"
    and inv: "match_inv M n noMatchFlag maxDistance dists (mmi, md)"
    and beaten: "\<exists>k<M. k \<noteq> i \<and> mmi ! k = mmi ! i \<and> md ! k < md ! i"
    and new: "slot_inv M n noMatchFlag maxDistance dists (mmi[i := v], md[i := d]) i"
  shows "match_inv M n noMatchFlag maxDistance dists (mmi[i := v], md[i := d])"
proof -
  have "slot_inv M n noMatchFlag maxDistance dists (mmi[i := v], md[i := d]) i'" if "i' < M" for i'
  proof (cases "i' = i")
    case True
    with new show ?thesis by simp
  next
    case False
    from inv that have "slot_inv M n noMatchFlag maxDistance dists (mmi, md) i'"
      by (simp add: match_inv_def)
    from slot_inv_other [OF rows this that False beaten] show ?thesis .
  qed
  with inv show ?thesis
    by (simp add: match_inv_def)
qed


lemma match_candidates_inv:
  assumes rows: "rows_ok M n noMatchFlag dists" and i: "i < M"
  shows "match_inv M n noMatchFlag maxDistance dists st \<Longrightarrow> r + j = n
     \<Longrightarrow> (\<forall>q<j. betterMatchAlreadyExist M (fst st) (snd st) i (dists ! i ! q))
     \<Longrightarrow> match_inv M n noMatchFlag maxDistance dists
           (fst (match_candidates r M n noMatchFlag maxDistance dists i j st))"
proof (induction r arbitrary: j st)
  case 0
  then show ?case by simp
next
  case (Suc r)
  obtain mmi md where st: "st = (mmi, md)"
    by (cases st)
  from Suc.prems(2) have j: "j < n"
    by simp
  from rows i have row: "length (dists ! i) = n" "distinct (map fst (dists ! i))"
      "noMatchFlag \<notin> fst ` set (dists ! i)"
    by (simp_all add: rows_ok_def)
  from Suc.prems(1) st i have inv: "match_inv M n noMatchFlag maxDistance dists (mmi, md)"
    and own: "slot_inv M n noMatchFlag maxDistance dists (mmi, md) i"
    by (simp_all add: match_inv_def)
  from Suc.prems(3) st have before: "\<forall>q<j. betterMatchAlreadyExist M mmi md i (dists ! i ! q)"
    by simp
  show ?case
  proof (cases "mmi ! i = noMatchFlag")
    case True
    with inv st show ?thesis by simp
  next
    case False
    with own obtain p where p: "p < n" "mmi ! i = fst (dists ! i ! p)"
        "md ! i = snd (dists ! i ! p)"
        "\<forall>q<p. betterMatchAlreadyExist M mmi md i (dists ! i ! q)"
      and obs: "\<forall>c\<in>set (dists ! i). snd c \<noteq> maxDistance"
      by (auto simp add: slot_inv_def)
    from j row obs have notmax: "snd (dists ! i ! j) \<noteq> maxDistance"
      by simp
    from j row have notnone: "fst (dists ! i ! j) \<noteq> noMatchFlag"
      by (metis image_eqI nth_mem)
    show ?thesis
    proof (cases "betterMatchAlreadyExist M mmi md i (dists ! i ! j)")
      case better: True
      show ?thesis
      proof (cases "int j = int n - 1")
        case last: True
        then have r0: "r = 0"
          using Suc.prems(2) by simp
        from last j p(1) have "p \<le> j"
          by simp
        with before better have "betterMatchAlreadyExist M mmi md i (dists ! i ! p)"
          by (cases "p = j") simp_all
        with p have beaten: "\<exists>k<M. k \<noteq> i \<and> mmi ! k = mmi ! i \<and> md ! k < md ! i"
          by (auto simp add: better_iff)
        have all: "betterMatchAlreadyExist M mmi md i (dists ! i ! q)" if "q < n" for q
          using that last before better by (cases "q = j") simp_all
        from inv i have "length mmi = M"
          by (simp add: match_inv_def)
        with i all have new: "slot_inv M n noMatchFlag maxDistance dists
            (mmi[i := noMatchFlag], md[i := maxDistance]) i"
          by (simp add: slot_inv_def better_own_slot)
        from match_inv_update [OF rows inv beaten new] False notmax better last r0 st
        show ?thesis
          by simp
      next
        case notlast: False
        from before better have "\<forall>q<Suc j. betterMatchAlreadyExist M mmi md i (dists ! i ! q)"
          by (simp add: less_Suc_eq)
        with Suc.IH [of "(mmi, md)" "Suc j"] inv Suc.prems(2)
        have "match_inv M n noMatchFlag maxDistance dists
                (fst (match_candidates r M n noMatchFlag maxDistance dists i (Suc j) (mmi, md)))"
          by simp
        with False notmax better notlast st show ?thesis
          by simp
      qed
    next
      case nobetter: False
      show ?thesis
      proof (cases "mmi ! i = fst (dists ! i ! j)")
        case True
        with inv False notmax nobetter st show ?thesis
          by simp
      next
        case changed: False
        have "p < j"
        proof (rule ccontr)
          assume "\<not> p < j"
          with changed p(2) have "j < p"
            by (cases "p = j") simp_all
          with p(4) nobetter show False
            by simp
        qed
        with before have "betterMatchAlreadyExist M mmi md i (dists ! i ! p)"
          by simp
        with p have beaten: "\<exists>k<M. k \<noteq> i \<and> mmi ! k = mmi ! i \<and> md ! k < md ! i"
          by (auto simp add: better_iff)
        from inv i have len: "length mmi = M" "length md = M"
          by (simp_all add: match_inv_def)
        have new: "slot_inv M n noMatchFlag maxDistance dists
            (mmi[i := fst (dists ! i ! j)], md[i := snd (dists ! i ! j)]) i"
          unfolding slot_inv_def using len i notnone obs before j
          by (simp add: better_own_slot) (intro exI [of _ j], simp)
        from match_inv_update [OF rows inv beaten new] False notmax nobetter changed st
        show ?thesis
          by simp
      qed
    qed
  qed
qed

lemma match_slots_inv:
  assumes rows: "rows_ok M n noMatchFlag dists"
  shows "match_inv M n noMatchFlag maxDistance dists st \<Longrightarrow> i + r \<le> M
     \<Longrightarrow> match_inv M n noMatchFlag maxDistance dists
           (fst (match_slots r M n noMatchFlag maxDistance dists i st))"
proof (induction r arbitrary: i st)
  case 0
  then show ?case by simp
next
  case (Suc r)
  from Suc.prems(2) have i: "i < M"
    by simp
  obtain st1 flag where c: "match_candidates n M n noMatchFlag maxDistance dists i 0 st = (st1, flag)"
    by (cases "match_candidates n M n noMatchFlag maxDistance dists i 0 st")
  with match_candidates_inv [OF rows i Suc.prems(1), of n 0]
  have inv1: "match_inv M n noMatchFlag maxDistance dists st1"
    by simp
  show ?case
  proof (cases flag)
    case True
    with c inv1 show ?thesis by simp
  next
    case False
    with c Suc.IH [OF inv1, of "Suc i"] Suc.prems(2) show ?thesis by simp
  qed
qed

lemma match_passes_inv:
  assumes rows: "rows_ok M n noMatchFlag dists"
  shows "match_inv M n noMatchFlag maxDistance dists st
     \<Longrightarrow> match_passes fuel M n noMatchFlag maxDistance dists st = Some mmi
     \<Longrightarrow> \<exists>md. match_inv M n noMatchFlag maxDistance dists (mmi, md)"
proof (induction fuel arbitrary: st)
  case 0
  then show ?case by simp
next
  case (Suc fuel)
  obtain st1 flag where pass: "match_slots M M n noMatchFlag maxDistance dists 0 st = (st1, flag)"
    by (cases "match_slots M M n noMatchFlag maxDistance dists 0 st")
  from match_slots_inv [OF rows Suc.prems(1), of 0 M] pass
  have inv1: "match_inv M n noMatchFlag maxDistance dists st1"
    by simp
  show ?case
  proof (cases flag)
    case True
    with Suc.prems(2) pass have "match_passes fuel M n noMatchFlag maxDistance dists st1 = Some mmi"
      by simp
    from Suc.IH [OF inv1 this] show ?thesis .
  next
    case False
    with Suc.prems(2) pass have "mmi = fst st1"
      by simp
    with inv1 show ?thesis
      by (intro exI [of _ "snd st1"]) simp
  qed
qed

lemma initial_match_inv:
  assumes rows: "rows_ok M n noMatchFlag dists" and n: "0 < n"
    and uniform: "\<forall>i<M. (\<forall>c\<in>set (dists ! i). snd c = maxDistance)
                        \<or> (\<forall>c\<in>set (dists ! i). snd c \<noteq> maxDistance)"
  shows "match_inv M n noMatchFlag maxDistance dists (initial_match M noMatchFlag maxDistance dists)"
proof -
  have "slot_inv M n noMatchFlag maxDistance dists (initial_match M noMatchFlag maxDistance dists) i"
    if i: "i < M" for i
  proof -
    from rows i n have row: "length (dists ! i) = n" "noMatchFlag \<notin> fst ` set (dists ! i)"
      and first: "dists ! i ! 0 \<in> set (dists ! i)"
      by (simp_all add: rows_ok_def)
    show ?thesis
    proof (cases "snd (dists ! i ! 0) = maxDistance")
      case True
      with uniform i first have "\<forall>c\<in>set (dists ! i). snd c = maxDistance"
        by blast
      with True i show ?thesis
        by (simp add: slot_inv_def initial_match_def)
    next
      case False
      with uniform i first have "\<forall>c\<in>set (dists ! i). snd c \<noteq> maxDistance"
        by blast
      moreover from first row have "fst (dists ! i ! 0) \<noteq> noMatchFlag"
        by (metis image_eqI)
      ultimately show ?thesis
        using False i n unfolding slot_inv_def initial_match_def
        by (simp) (intro exI [of _ 0], simp)
    qed
  qed
  then show ?thesis
    by (simp add: match_inv_def initial_match_def)
qed

lemma sorted_row:
  assumes "i < nat (MaxNumberOfStrays t)"
  shows "SortDistanceStrays t (GetDistanceStrays t n maxDistance straysPos) ! i =
           sort_key snd (map (\<lambda>k. (int k,
                                    if observed (LastStraysPos t ! i)
                                    then distance (LastStraysPos t ! i) (straysPos ! k)
                                    else maxDistance)) [0..<n])"
  using assms by (simp add: SortDistanceStrays_def GetDistanceStrays_def cong: if_cong)

lemma sorted_row_fst:
  assumes "i < nat (MaxNumberOfStrays t)"
  shows "set (map fst (SortDistanceStrays t (GetDistanceStrays t n maxDistance straysPos) ! i))
           = int ` {0..<n}"
    and "distinct (map fst (SortDistanceStrays t (GetDistanceStrays t n maxDistance straysPos) ! i))"
    and "length (SortDistanceStrays t (GetDistanceStrays t n maxDistance straysPos) ! i) = n"
proof -
  let ?xs = "map (\<lambda>k. (int k, if observed (LastStraysPos t ! i)
                               then distance (LastStraysPos t ! i) (straysPos ! k)
                               else maxDistance)) [0..<n]"
  have fst_xs: "map fst ?xs = map int [0..<n]"
    by (simp add: comp_def)
  have "set (map fst (sort_key snd ?xs)) = set (map fst ?xs)"
    by (simp only: set_map set_sort)
  also have "\<dots> = int ` {0..<n}"
    by (simp add: image_image)
  finally show "set (map fst (SortDistanceStrays t (GetDistanceStrays t n maxDistance straysPos) ! i))
           = int ` {0..<n}"
    unfolding sorted_row [OF assms] .
  have "distinct (map fst ?xs)"
    unfolding fst_xs by (simp add: distinct_map)
  then have "distinct (map fst (sort_key snd ?xs))"
    by (simp only: distinct_map set_sort distinct_sort)
  then show "distinct (map fst (SortDistanceStrays t (GetDistanceStrays t n maxDistance straysPos) ! i))"
    unfolding sorted_row [OF assms] .
  show "length (SortDistanceStrays t (GetDistanceStrays t n maxDistance straysPos) ! i) = n"
    by (simp add: sorted_row [OF assms])
qed

lemma sorted_rows_ok:
  assumes "int n \<le> INT_MAX"
  shows "rows_ok (nat (MaxNumberOfStrays t)) n INT_MAX
           (SortDistanceStrays t (GetDistanceStrays t n maxDistance straysPos))"
proof -
  let ?dists = "SortDistanceStrays t (GetDistanceStrays t n maxDistance straysPos)"
  have "INT_MAX \<notin> fst ` set (?dists ! i)" if i: "i < nat (MaxNumberOfStrays t)" for i
    using sorted_row_fst(1) [OF i, of n maxDistance straysPos] assms by auto
  then show ?thesis
    by (simp add: rows_ok_def sorted_row_fst)
qed

lemma sorted_rows_uniform:
  assumes i: "i < nat (MaxNumberOfStrays t)"
    and far: "\<forall>k<n. distance (LastStraysPos t ! i) (straysPos ! k) \<noteq> maxDistance"
  shows "if observed (LastStraysPos t ! i)
         then \<forall>c\<in>set (SortDistanceStrays t (GetDistanceStrays t n maxDistance straysPos) ! i).
                snd c \<noteq> maxDistance
         else \<forall>c\<in>set (SortDistanceStrays t (GetDistanceStrays t n maxDistance straysPos) ! i).
                snd c = maxDistance"
  using far by (auto simp add: sorted_row [OF i])

lemma sorted_row_covers:
  assumes i: "i < nat (MaxNumberOfStrays t)" and k: "k < n"
  shows "\<exists>q<n. fst (SortDistanceStrays t (GetDistanceStrays t n maxDistance straysPos) ! i ! q) = int k"
proof -
  let ?row = "SortDistanceStrays t (GetDistanceStrays t n maxDistance straysPos) ! i"
  from k have "int k \<in> set (map fst ?row)"
    unfolding sorted_row_fst(1) [OF i] by simp
  then obtain q where "q < length (map fst ?row)" "map fst ?row ! q = int k"
    by (meson in_set_conv_nth)
  then show ?thesis
    by (auto simp add: sorted_row_fst(3) [OF i])
qed

lemma unusedStrays_of_empty:
  assumes "\<forall>k<n. int k \<in> set mmi"
  shows "unusedStrays_of n mmi = []"
  using assms by (auto simp add: unusedStrays_of_def list_ex_iff filter_empty_conv)


lemma UpdateLastStraysData_fields:
  "LastStraysPos (UpdateLastStraysData t n f mmi sp) =
     fst (update_slots (nat (MaxNumberOfStrays t)) 0 f mmi sp
            (LastStraysPos t, LastStraysStatus t, unusedStrays_of n mmi))"
  "LastStraysStatus (UpdateLastStraysData t n f mmi sp) =
     fst (snd (update_slots (nat (MaxNumberOfStrays t)) 0 f mmi sp
                 (LastStraysPos t, LastStraysStatus t, unusedStrays_of n mmi)))"
  by (simp_all add: UpdateLastStraysData_def split: prod.splits)

subsection \<open>The conflict resolution ends\<close>

lemma slot_pos_nth:
  assumes "distinct (map fst row)" and "p < length row" and "fst (row ! p) \<noteq> noMatchFlag"
  shows "slot_pos n noMatchFlag row (fst (row ! p)) = p"
proof -
  have "takeWhile (\<lambda>c. fst c \<noteq> fst (row ! p)) row = take p row"
  proof (rule takeWhile_eq_take_P_nth)
    fix q assume q: "q < p" "q < length row"
    with assms(1,2) have "map fst row ! q \<noteq> map fst row ! p"
      by (simp add: nth_eq_iff_index_eq del: nth_map)
    with q assms(2) show "fst (row ! q) \<noteq> fst (row ! p)"
      by simp
  next
    show "\<not> fst (row ! p) \<noteq> fst (row ! p)"
      by simp
  qed
  with assms(2,3) show ?thesis
    by (simp add: slot_pos_def)
qed

lemma slot_pos_le: "length row = n \<Longrightarrow> slot_pos n noMatchFlag row v \<le> n"
  by (simp add: slot_pos_def) (metis length_takeWhile_le)

lemma match_candidates_progress:
  assumes rows: "rows_ok M n noMatchFlag dists" and i: "i < M"
  shows "match_inv M n noMatchFlag maxDistance dists st \<Longrightarrow> r + j = n
     \<Longrightarrow> (\<forall>q<j. betterMatchAlreadyExist M (fst st) (snd st) i (dists ! i ! q))
     \<Longrightarrow> match_candidates r M n noMatchFlag maxDistance dists i j st = (st1, flag)
     \<Longrightarrow> (\<forall>k. k \<noteq> i \<longrightarrow> fst st1 ! k = fst st ! k)
         \<and> slot_pos n noMatchFlag (dists ! i) (fst st ! i) \<le> slot_pos n noMatchFlag (dists ! i) (fst st1 ! i)
         \<and> (flag \<longrightarrow> slot_pos n noMatchFlag (dists ! i) (fst st ! i)
                        < slot_pos n noMatchFlag (dists ! i) (fst st1 ! i))"
proof (induction r arbitrary: j st)
  case 0
  then show ?case by auto
next
  case (Suc r)
  obtain mmi md where st: "st = (mmi, md)"
    by (cases st)
  from Suc.prems(2) have j: "j < n"
    by simp
  from rows i have row: "length (dists ! i) = n" "distinct (map fst (dists ! i))"
      "noMatchFlag \<notin> fst ` set (dists ! i)"
    by (simp_all add: rows_ok_def)
  from Suc.prems(1) st i have inv: "match_inv M n noMatchFlag maxDistance dists (mmi, md)"
    and own: "slot_inv M n noMatchFlag maxDistance dists (mmi, md) i"
    and len: "length mmi = M"
    by (simp_all add: match_inv_def)
  from Suc.prems(3) st have before: "\<forall>q<j. betterMatchAlreadyExist M mmi md i (dists ! i ! q)"
    by simp
  note res = Suc.prems(4) [unfolded st]
  show ?case
  proof (cases "mmi ! i = noMatchFlag")
    case True
    with res st show ?thesis by auto
  next
    case False
    with own obtain p where p: "p < n" "mmi ! i = fst (dists ! i ! p)"
        "\<forall>q<p. betterMatchAlreadyExist M mmi md i (dists ! i ! q)"
      and obs: "\<forall>c\<in>set (dists ! i). snd c \<noteq> maxDistance"
      by (auto simp add: slot_inv_def)
    from j row obs have notmax: "snd (dists ! i ! j) \<noteq> maxDistance"
      by simp
    have none: "fst (dists ! i ! q) \<noteq> noMatchFlag" if "q < n" for q
      using that row by (metis image_eqI nth_mem)
    have pos: "slot_pos n noMatchFlag (dists ! i) (mmi ! i) = p"
      using slot_pos_nth [OF row(2), of p noMatchFlag n] p(1,2) row(1) none [OF p(1)] by simp
    show ?thesis
    proof (cases "betterMatchAlreadyExist M mmi md i (dists ! i ! j)")
      case better: True
      show ?thesis
      proof (cases "int j = int n - 1")
        case last: True
        then have r0: "r = 0"
          using Suc.prems(2) by simp
        from res False notmax better last r0
        have "st1 = (mmi[i := noMatchFlag], md[i := maxDistance])" "flag = False"
          by simp_all
        with st pos p(1) i len show ?thesis
          by (simp add: slot_pos_def)
      next
        case notlast: False
        from before better have b: "\<forall>q<Suc j. betterMatchAlreadyExist M (fst (mmi, md)) (snd (mmi, md)) i (dists ! i ! q)"
          by (simp add: less_Suc_eq)
        from res False notmax better notlast
        have "match_candidates r M n noMatchFlag maxDistance dists i (Suc j) (mmi, md) = (st1, flag)"
          by simp
        from Suc.IH [OF inv _ b this] Suc.prems(2) st show ?thesis
          by simp
      qed
    next
      case nobetter: False
      show ?thesis
      proof (cases "mmi ! i = fst (dists ! i ! j)")
        case True
        with res False notmax nobetter st show ?thesis
          by auto
      next
        case changed: False
        have pj: "p < j"
        proof (rule ccontr)
          assume "\<not> p < j"
          with changed p(2) have "j < p"
            by (cases "p = j") simp_all
          with p(3) nobetter show False
            by simp
        qed
        from res False notmax nobetter changed
        have "st1 = (mmi[i := fst (dists ! i ! j)], md[i := snd (dists ! i ! j)])" "flag = True"
          by simp_all
        moreover have "slot_pos n noMatchFlag (dists ! i) (fst (dists ! i ! j)) = j"
          using slot_pos_nth [OF row(2), of j noMatchFlag n] j row(1) none [OF j] by simp
        ultimately show ?thesis
          using st pos pj i len by simp
      qed
    qed
  qed
qed


lemma match_progress_step:
  assumes "i < M" and "\<forall>k. k \<noteq> i \<longrightarrow> mmi1 ! k = mmi ! k"
    and "slot_pos n noMatchFlag (dists ! i) (mmi ! i) \<le> slot_pos n noMatchFlag (dists ! i) (mmi1 ! i)"
  shows "match_progress M n noMatchFlag dists mmi \<le> match_progress M n noMatchFlag dists mmi1"
    and "slot_pos n noMatchFlag (dists ! i) (mmi ! i) < slot_pos n noMatchFlag (dists ! i) (mmi1 ! i)
         \<Longrightarrow> match_progress M n noMatchFlag dists mmi < match_progress M n noMatchFlag dists mmi1"
proof -
  have le: "slot_pos n noMatchFlag (dists ! k) (mmi ! k) \<le> slot_pos n noMatchFlag (dists ! k) (mmi1 ! k)"
    for k
    using assms(2,3) by (cases "k = i") simp_all
  then show "match_progress M n noMatchFlag dists mmi \<le> match_progress M n noMatchFlag dists mmi1"
    unfolding match_progress_def by (intro sum_mono) simp
  assume "slot_pos n noMatchFlag (dists ! i) (mmi ! i) < slot_pos n noMatchFlag (dists ! i) (mmi1 ! i)"
  with assms(1) le
  show "match_progress M n noMatchFlag dists mmi < match_progress M n noMatchFlag dists mmi1"
    unfolding match_progress_def by (intro sum_strict_mono_ex1) auto
qed

lemma match_progress_le:
  assumes "rows_ok M n noMatchFlag dists"
  shows "match_progress M n noMatchFlag dists mmi \<le> M * n"
proof -
  have "slot_pos n noMatchFlag (dists ! i) (mmi ! i) \<le> n" if "i \<in> {..<M}" for i
    using that assms by (intro slot_pos_le) (simp add: rows_ok_def)
  then have "(\<Sum>i<M. slot_pos n noMatchFlag (dists ! i) (mmi ! i)) \<le> of_nat (card {..<M}) * n"
    by (rule sum_bounded_above)
  then show ?thesis
    by (simp add: match_progress_def)
qed

lemma match_slots_progress:
  assumes rows: "rows_ok M n noMatchFlag dists"
  shows "match_inv M n noMatchFlag maxDistance dists st \<Longrightarrow> i + r \<le> M
     \<Longrightarrow> match_slots r M n noMatchFlag maxDistance dists i st = (st1, flag)
     \<Longrightarrow> match_progress M n noMatchFlag dists (fst st) \<le> match_progress M n noMatchFlag dists (fst st1)
         \<and> (flag \<longrightarrow> match_progress M n noMatchFlag dists (fst st)
                        < match_progress M n noMatchFlag dists (fst st1))"
proof (induction r arbitrary: i st)
  case 0
  then show ?case by auto
next
  case (Suc r)
  from Suc.prems(2) have i: "i < M"
    by simp
  obtain st' flag' where c: "match_candidates n M n noMatchFlag maxDistance dists i 0 st = (st', flag')"
    by (cases "match_candidates n M n noMatchFlag maxDistance dists i 0 st")
  with match_candidates_inv [OF rows i Suc.prems(1), of n 0]
  have inv': "match_inv M n noMatchFlag maxDistance dists st'"
    by simp
  from match_candidates_progress [OF rows i Suc.prems(1) _ _ c]
  have same: "\<forall>k. k \<noteq> i \<longrightarrow> fst st' ! k = fst st ! k"
    and le: "slot_pos n noMatchFlag (dists ! i) (fst st ! i) \<le> slot_pos n noMatchFlag (dists ! i) (fst st' ! i)"
    and less: "flag' \<Longrightarrow> slot_pos n noMatchFlag (dists ! i) (fst st ! i)
                          < slot_pos n noMatchFlag (dists ! i) (fst st' ! i)"
    by simp_all
  note step = match_progress_step [OF i same le]
  show ?case
  proof (cases flag')
    case True
    with c Suc.prems(3) have "st1 = st'" "flag"
      by simp_all
    with step(2) [OF less] True show ?thesis
      by simp
  next
    case False
    with c Suc.prems(3)
    have "match_slots r M n noMatchFlag maxDistance dists (Suc i) st' = (st1, flag)"
      by simp
    from Suc.IH [OF inv' _ this] Suc.prems(2) step(1) show ?thesis
      by auto
  qed
qed

lemma match_passes_terminates:
  assumes rows: "rows_ok M n noMatchFlag dists"
  shows "match_inv M n noMatchFlag maxDistance dists st
     \<Longrightarrow> M * n - match_progress M n noMatchFlag dists (fst st) < fuel
     \<Longrightarrow> \<exists>mmi. match_passes fuel M n noMatchFlag maxDistance dists st = Some mmi"
proof (induction fuel arbitrary: st)
  case 0
  then show ?case by simp
next
  case (Suc fuel)
  obtain st1 flag where pass: "match_slots M M n noMatchFlag maxDistance dists 0 st = (st1, flag)"
    by (cases "match_slots M M n noMatchFlag maxDistance dists 0 st")
  from match_slots_inv [OF rows Suc.prems(1), of 0 M] pass
  have inv1: "match_inv M n noMatchFlag maxDistance dists st1"
    by simp
  show ?case
  proof (cases flag)
    case False
    with pass show ?thesis by simp
  next
    case True
    with match_slots_progress [OF rows Suc.prems(1) _ pass]
    have "match_progress M n noMatchFlag dists (fst st) < match_progress M n noMatchFlag dists (fst st1)"
      by simp
    with Suc.prems(2) match_progress_le [OF rows, of "fst st1"]
    have "M * n - match_progress M n noMatchFlag dists (fst st1) < fuel"
      by linarith
    from Suc.IH [OF inv1 this] pass True show ?thesis
      by simp
  qed
qed

subsection \<open>The slots after one matching pass\<close>

lemma slots_after_matching:
  assumes M: "0 < MaxNumberOfStrays t"
    and lens: "length (LastStraysPos t) = nat (MaxNumberOfStrays t)"
      "length (LastStraysStatus t) = nat (MaxNumberOfStrays t)"
    and obs: "straysPos \<noteq> []" "int (length straysPos) \<le> INT_MAX"
    and far: "\<forall>p\<in>set (LastStraysPos t). \<forall>q\<in>set straysPos. distance p q \<noteq> DBL_MAX"
    and matched: "MatchStrays fuel t (length straysPos) INT_MAX DBL_MAX
                    (SortDistanceStrays t
                       (GetDistanceStrays t (length straysPos) DBL_MAX straysPos))
                  = Some minMatchedIndex"
    and i: "i < nat (MaxNumberOfStrays t)"
  shows "update_strays fuel t straysPos
           = Some (UpdateLastStraysData t (length straysPos) INT_MAX minMatchedIndex straysPos)
     \<and> (\<not> observed (LastStraysPos t ! i) \<longrightarrow>
          minMatchedIndex ! i = INT_MAX
          \<and> (if empty_rank t i < length (unusedStrays_of (length straysPos) minMatchedIndex)
             then LastStraysPos (UpdateLastStraysData t (length straysPos) INT_MAX minMatchedIndex straysPos) ! i
                    = straysPos ! nat (unusedStrays_of (length straysPos) minMatchedIndex ! empty_rank t i)
                  \<and> LastStraysStatus (UpdateLastStraysData t (length straysPos) INT_MAX minMatchedIndex straysPos) ! i
                    = TOOL_OK
             else LastStraysPos (UpdateLastStraysData t (length straysPos) INT_MAX minMatchedIndex straysPos) ! i
                    = LastStraysPos t ! i
                  \<and> LastStraysStatus (UpdateLastStraysData t (length straysPos) INT_MAX minMatchedIndex straysPos) ! i
                    = TOOL_MISSING))
     \<and> (observed (LastStraysPos t ! i) \<and> minMatchedIndex ! i = INT_MAX \<longrightarrow>
          LastStraysPos (UpdateLastStraysData t (length straysPos) INT_MAX minMatchedIndex straysPos) ! i
            = LastStraysPos t ! i
          \<and> LastStraysStatus (UpdateLastStraysData t (length straysPos) INT_MAX minMatchedIndex straysPos) ! i
            = TOOL_MISSING)
     \<and> (minMatchedIndex ! i \<noteq> INT_MAX \<longrightarrow>
          observed (LastStraysPos t ! i)
          \<and> LastStraysPos (UpdateLastStraysData t (length straysPos) INT_MAX minMatchedIndex straysPos) ! i
            = straysPos ! nat (minMatchedIndex ! i)
          \<and> LastStraysStatus (UpdateLastStraysData t (length straysPos) INT_MAX minMatchedIndex straysPos) ! i
            = TOOL_OK)"
proof -
  let ?M = "nat (MaxNumberOfStrays t)"
  let ?n = "length straysPos"
  let ?dists = "SortDistanceStrays t (GetDistanceStrays t ?n DBL_MAX straysPos)"
  let ?unused = "unusedStrays_of ?n minMatchedIndex"
  let ?t' = "UpdateLastStraysData t ?n INT_MAX minMatchedIndex straysPos"
  from obs have n: "0 < ?n"
    by simp
  have rows: "rows_ok ?M ?n INT_MAX ?dists"
    using obs(2) by (rule sorted_rows_ok)
  have uniform: "if observed (LastStraysPos t ! j)
                 then \<forall>c\<in>set (?dists ! j). snd c \<noteq> DBL_MAX
                 else \<forall>c\<in>set (?dists ! j). snd c = DBL_MAX" if "j < ?M" for j
  proof (rule sorted_rows_uniform [OF that])
    from that lens have "LastStraysPos t ! j \<in> set (LastStraysPos t)"
      by simp
    with far show "\<forall>k<?n. distance (LastStraysPos t ! j) (straysPos ! k) \<noteq> DBL_MAX"
      by simp
  qed
  have nonempty: "?dists ! j ! 0 \<in> set (?dists ! j)" if "j < ?M" for j
    using n sorted_row_fst(3) [OF that, of ?n DBL_MAX straysPos] by simp
  have "match_inv ?M ?n INT_MAX DBL_MAX ?dists (initial_match ?M INT_MAX DBL_MAX ?dists)"
  proof (rule initial_match_inv [OF rows n], intro allI impI)
    fix j assume "j < ?M"
    from uniform [OF this]
    show "(\<forall>c\<in>set (?dists ! j). snd c = DBL_MAX) \<or> (\<forall>c\<in>set (?dists ! j). snd c \<noteq> DBL_MAX)"
      by (cases "observed (LastStraysPos t ! j)") simp_all
  qed
  with matched obtain minDistance
    where inv: "match_inv ?M ?n INT_MAX DBL_MAX ?dists (minMatchedIndex, minDistance)"
    unfolding MatchStrays_def using match_passes_inv [OF rows] by blast
  then have len: "length minMatchedIndex = ?M"
    and slots: "\<And>j. j < ?M \<Longrightarrow> slot_inv ?M ?n INT_MAX DBL_MAX ?dists (minMatchedIndex, minDistance) j"
    by (simp_all add: match_inv_def)
  have empty_none: "minMatchedIndex ! j = INT_MAX" if j: "j < ?M" "\<not> observed (LastStraysPos t ! j)" for j
  proof (rule ccontr)
    assume "minMatchedIndex ! j \<noteq> INT_MAX"
    with slots [OF j(1)] have "\<forall>c\<in>set (?dists ! j). snd c \<noteq> DBL_MAX"
      by (simp add: slot_inv_def)
    moreover from uniform [OF j(1)] j(2) have "\<forall>c\<in>set (?dists ! j). snd c = DBL_MAX"
      by simp
    ultimately show False
      using nonempty [OF j(1)] by blast
  qed
  have observed_none: "?unused = []"
    if j: "j < ?M" "observed (LastStraysPos t ! j)" "minMatchedIndex ! j = INT_MAX" for j
  proof -
    from uniform [OF j(1)] j(2) have "\<forall>c\<in>set (?dists ! j). snd c \<noteq> DBL_MAX"
      by simp
    with nonempty [OF j(1)] have "\<not> (\<forall>c\<in>set (?dists ! j). snd c = DBL_MAX)"
      by blast
    with slots [OF j(1)] j(3)
    have all: "\<forall>q<?n. betterMatchAlreadyExist ?M minMatchedIndex minDistance j (?dists ! j ! q)"
      by (simp add: slot_inv_def)
    have "int k \<in> set minMatchedIndex" if "k < ?n" for k
    proof -
      from sorted_row_covers [OF j(1) that, of DBL_MAX straysPos]
      obtain q where q: "q < ?n" "fst (?dists ! j ! q) = int k"
        by auto
      with all obtain k' where "k' < ?M" "minMatchedIndex ! k' = int k"
        by (auto simp add: better_iff)
      with len show ?thesis
        by (metis nth_mem)
    qed
    then show ?thesis
      by (intro unusedStrays_of_empty) simp
  qed
  have upd: "update_strays fuel t straysPos = Some ?t'"
    using M obs(1) matched by (simp add: update_strays_def Let_def)
  from i lens have bounds: "0 \<le> i" "i < 0 + ?M" "0 + ?M \<le> length (LastStraysPos t)"
      "0 + ?M \<le> length (LastStraysStatus t)"
    by simp_all
  note slot = update_slots_slot [OF bounds, of INT_MAX minMatchedIndex straysPos ?unused]
  have second: "LastStraysPos ?t' ! i = LastStraysPos t ! i \<and> LastStraysStatus ?t' ! i = TOOL_MISSING"
    if "observed (LastStraysPos t ! i)" "minMatchedIndex ! i = INT_MAX"
    using slot observed_none [OF i that] that by (simp add: UpdateLastStraysData_fields)
  have first: "if empty_rank t i < length ?unused
               then LastStraysPos ?t' ! i = straysPos ! nat (?unused ! empty_rank t i)
                    \<and> LastStraysStatus ?t' ! i = TOOL_OK
               else LastStraysPos ?t' ! i = LastStraysPos t ! i
                    \<and> LastStraysStatus ?t' ! i = TOOL_MISSING"
    if e: "\<not> observed (LastStraysPos t ! i)"
  proof (cases "?unused = []")
    case True
    with slot empty_none [OF i e] show ?thesis
      by (simp add: UpdateLastStraysData_fields)
  next
    case False
    have "(minMatchedIndex ! j = INT_MAX) = (\<not> observed (LastStraysPos t ! j))" if "j < ?M" for j
      using empty_none [OF that] observed_none [OF that] False by blast
    with i have "none_rank INT_MAX minMatchedIndex 0 i = empty_rank t i"
      unfolding none_rank_def empty_rank_def
      by (intro arg_cong [where f = length] filter_cong) simp_all
    with slot empty_none [OF i e] show ?thesis
      by (simp add: UpdateLastStraysData_fields)
  qed
  have third: "observed (LastStraysPos t ! i)
      \<and> LastStraysPos ?t' ! i = straysPos ! nat (minMatchedIndex ! i)
      \<and> LastStraysStatus ?t' ! i = TOOL_OK"
    if "minMatchedIndex ! i \<noteq> INT_MAX"
    using slot that empty_none [OF i] by (auto simp add: UpdateLastStraysData_fields)
  from upd first second third empty_none [OF i] show ?thesis
    by simp
qed

text \<open>
  Claim C2. Take one matching pass on a tracker whose stray vectors have the configured
  length, with at least one observation and no computed distance equal to
  \<^verbatim>\<open>DBL_MAX\<close>. When more passes are allowed than the product of the numbers of slots
  and of observations, the conflict resolution ends, and after the update: a slot with
  the zero position has no match; the observations that no slot holds go to these slots
  in order, the \<open>k\<close>-th of them to the \<open>k\<close>-th empty slot, which takes its position
  with status OK; an empty slot beyond them is MISSING and keeps its position; a slot
  that was observed before and ended without match is MISSING and keeps its last
  position; a slot with a match was observed before and takes the position matched,
  with status OK.
\<close>

theorem leftover_strays_fill_empty_slots:
  assumes M: "0 < MaxNumberOfStrays t"
    and lens: "length (LastStraysPos t) = nat (MaxNumberOfStrays t)"
      "length (LastStraysStatus t) = nat (MaxNumberOfStrays t)"
    and obs: "straysPos \<noteq> []" "int (length straysPos) \<le> INT_MAX"
    and far: "\<forall>p\<in>set (LastStraysPos t). \<forall>q\<in>set straysPos. distance p q \<noteq> DBL_MAX"
    and fuel: "nat (MaxNumberOfStrays t) * length straysPos < fuel"
  shows "\<exists>minMatchedIndex t'.
           MatchStrays fuel t (length straysPos) INT_MAX DBL_MAX
             (SortDistanceStrays t (GetDistanceStrays t (length straysPos) DBL_MAX straysPos))
             = Some minMatchedIndex
         \<and> update_strays fuel t straysPos = Some t'
         \<and> (\<forall>i < nat (MaxNumberOfStrays t).
               (\<not> observed (LastStraysPos t ! i) \<longrightarrow>
                  minMatchedIndex ! i = INT_MAX
                  \<and> (if empty_rank t i < length (unusedStrays_of (length straysPos) minMatchedIndex)
                     then LastStraysPos t' ! i
                            = straysPos ! nat (unusedStrays_of (length straysPos) minMatchedIndex
                                                 ! empty_rank t i)
                          \<and> LastStraysStatus t' ! i = TOOL_OK
                     else LastStraysPos t' ! i = LastStraysPos t ! i
                          \<and> LastStraysStatus t' ! i = TOOL_MISSING))
               \<and> (observed (LastStraysPos t ! i) \<and> minMatchedIndex ! i = INT_MAX \<longrightarrow>
                    LastStraysPos t' ! i = LastStraysPos t ! i
                    \<and> LastStraysStatus t' ! i = TOOL_MISSING)
               \<and> (minMatchedIndex ! i \<noteq> INT_MAX \<longrightarrow>
                    observed (LastStraysPos t ! i)
                    \<and> LastStraysPos t' ! i = straysPos ! nat (minMatchedIndex ! i)
                    \<and> LastStraysStatus t' ! i = TOOL_OK))"
proof -
  let ?M = "nat (MaxNumberOfStrays t)"
  let ?n = "length straysPos"
  let ?dists = "SortDistanceStrays t (GetDistanceStrays t ?n DBL_MAX straysPos)"
  from obs have n: "0 < ?n"
    by simp
  have rows: "rows_ok ?M ?n INT_MAX ?dists"
    using obs(2) by (rule sorted_rows_ok)
  have "match_inv ?M ?n INT_MAX DBL_MAX ?dists (initial_match ?M INT_MAX DBL_MAX ?dists)"
  proof (rule initial_match_inv [OF rows n], intro allI impI)
    fix j assume j: "j < ?M"
    with lens have "LastStraysPos t ! j \<in> set (LastStraysPos t)"
      by simp
    with far have "\<forall>k<?n. distance (LastStraysPos t ! j) (straysPos ! k) \<noteq> DBL_MAX"
      by simp
    from sorted_rows_uniform [OF j this]
    show "(\<forall>c\<in>set (?dists ! j). snd c = DBL_MAX) \<or> (\<forall>c\<in>set (?dists ! j). snd c \<noteq> DBL_MAX)"
      by (cases "observed (LastStraysPos t ! j)") simp_all
  qed
  moreover from fuel
  have "?M * ?n - match_progress ?M ?n INT_MAX ?dists
                    (fst (initial_match ?M INT_MAX DBL_MAX ?dists)) < fuel"
    by simp
  ultimately have "\<exists>mmi. match_passes fuel ?M ?n INT_MAX DBL_MAX ?dists
                          (initial_match ?M INT_MAX DBL_MAX ?dists) = Some mmi"
    by (rule match_passes_terminates [OF rows])
  then obtain minMatchedIndex where matched:
    "MatchStrays fuel t ?n INT_MAX DBL_MAX ?dists = Some minMatchedIndex"
    unfolding MatchStrays_def by blast
  note slots = slots_after_matching [OF M lens obs far matched]
  from M slots [of 0]
  have updated: "update_strays fuel t straysPos
                   = Some (UpdateLastStraysData t ?n INT_MAX minMatchedIndex straysPos)"
    by simp
  show ?thesis
    apply (rule exI [of _ minMatchedIndex])
    apply (rule exI [of _ "UpdateLastStraysData t ?n INT_MAX minMatchedIndex straysPos"])
    apply (rule conjI, rule matched)
    apply (rule conjI, rule updated)
    apply (intro allI impI)
    subgoal for i
      using slots [of i] by simp
    done
qed

text \<open>
  The theorem at the tracker with two slots and the observations (0.1,0,10) and (5,5,5),
  with five passes allowed: the first slot holds observation 0, the second slot is empty
  and takes observation 1, the one that is left.
\<close>

theorem leftover_strays_fill_empty_slots_witness:
  "0 < MaxNumberOfStrays two_slots
   \<and> length (LastStraysPos two_slots) = nat (MaxNumberOfStrays two_slots)
   \<and> length (LastStraysStatus two_slots) = nat (MaxNumberOfStrays two_slots)
   \<and> distance (0, 0, 10) (0.1, 0, 10) \<noteq> DBL_MAX \<and> distance (0, 0, 10) (5, 5, 5) \<noteq> DBL_MAX
   \<and> distance (0, 0, 0) (0.1, 0, 10) \<noteq> DBL_MAX \<and> distance (0, 0, 0) (5, 5, 5) \<noteq> DBL_MAX
   \<and> nat (MaxNumberOfStrays two_slots) * length [(0.1 :: real, 0 :: real, 10 :: real), (5, 5, 5)] < 5
   \<and> MatchStrays 5 two_slots 2 INT_MAX DBL_MAX
         (SortDistanceStrays two_slots
            (GetDistanceStrays two_slots 2 DBL_MAX [(0.1, 0, 10), (5, 5, 5)]))
       = Some [0, INT_MAX]
   \<and> \<not> observed (LastStraysPos two_slots ! 1)
   \<and> unusedStrays_of 2 [0, INT_MAX] = [1]
   \<and> map_option (\<lambda>t'. (LastStraysPos t' ! 1, LastStraysStatus t' ! 1))
         (update_strays 5 two_slots [(0.1, 0, 10), (5, 5, 5)]) = Some ((5, 5, 5), TOOL_OK)"
proof -
  let ?obs = "[(0.1, 0, 10), (5, 5, 5)] :: position list"
  have fields: "MaxNumberOfStrays two_slots = 2"
      "LastStraysPos two_slots = [(0, 0, 10), (0, 0, 0)]"
      "LastStraysStatus two_slots = [TOOL_OK, TOOL_MISSING]"
    by (simp_all add: two_slots_def)
  have len: "length ?obs = 2"
    by simp
  have h1: "0 < MaxNumberOfStrays two_slots"
    and h2: "length (LastStraysPos two_slots) = nat (MaxNumberOfStrays two_slots)"
    and h3: "length (LastStraysStatus two_slots) = nat (MaxNumberOfStrays two_slots)"
    and h4: "?obs \<noteq> []" and h5: "int (length ?obs) \<le> INT_MAX"
    and h7: "nat (MaxNumberOfStrays two_slots) * length ?obs < 5"
    and h8: "1 < nat (MaxNumberOfStrays two_slots)"
    by (simp_all add: fields INT_MAX_def)
  have h6: "\<forall>p\<in>set (LastStraysPos two_slots). \<forall>q\<in>set ?obs. distance p q \<noteq> DBL_MAX"
    by (simp add: fields distance_def sqrt_ne_DBL_MAX power2_eq_square)
  have rows: "SortDistanceStrays two_slots (GetDistanceStrays two_slots 2 DBL_MAX ?obs)
                = [[(0, sqrt (1 / 100)), (1, sqrt 75)], [(0, DBL_MAX), (1, DBL_MAX)]]"
    by (simp add: SortDistanceStrays_def GetDistanceStrays_def fields upt_small observed_def
          distance_def power2_eq_square)
  have passes: "MatchStrays (Suc k) two_slots (length ?obs) INT_MAX DBL_MAX
              (SortDistanceStrays two_slots (GetDistanceStrays two_slots (length ?obs) DBL_MAX ?obs))
            = Some [0, INT_MAX]" for k
    unfolding len rows
    by (simp add: MatchStrays_def initial_match_def fields upt_small sqrt_ne_DBL_MAX
          betterMatchAlreadyExist_def INT_MAX_def numeral_2_eq_2)
  have five: "(5 :: nat) = Suc 4"
    by simp
  have m: "MatchStrays 5 two_slots (length ?obs) INT_MAX DBL_MAX
              (SortDistanceStrays two_slots (GetDistanceStrays two_slots (length ?obs) DBL_MAX ?obs))
            = Some [0, INT_MAX]"
    unfolding five by (rule passes)
  have e: "\<not> observed (LastStraysPos two_slots ! 1)" "empty_rank two_slots 1 = 0"
    by (simp_all add: fields observed_def empty_rank_def)
  have u: "unusedStrays_of (length ?obs) [0, INT_MAX] = [1]"
    by (simp add: unusedStrays_of_def upt_small INT_MAX_def)
  from leftover_strays_fill_empty_slots [OF h1 h2 h3 h4 h5 h6 h7]
  obtain minMatchedIndex t' where
    r: "MatchStrays 5 two_slots (length ?obs) INT_MAX DBL_MAX
          (SortDistanceStrays two_slots (GetDistanceStrays two_slots (length ?obs) DBL_MAX ?obs))
          = Some minMatchedIndex"
      "update_strays 5 two_slots ?obs = Some t'"
      "\<not> observed (LastStraysPos two_slots ! 1) \<longrightarrow>
         (if empty_rank two_slots 1 < length (unusedStrays_of (length ?obs) minMatchedIndex)
          then LastStraysPos t' ! 1
                 = ?obs ! nat (unusedStrays_of (length ?obs) minMatchedIndex ! empty_rank two_slots 1)
               \<and> LastStraysStatus t' ! 1 = TOOL_OK
          else LastStraysPos t' ! 1 = LastStraysPos two_slots ! 1
               \<and> LastStraysStatus t' ! 1 = TOOL_MISSING)"
    using h8 by blast
  from r(1) m have "minMatchedIndex = [0, INT_MAX]"
    by simp
  with r(3) e u have "LastStraysPos t' ! 1 = (5, 5, 5) \<and> LastStraysStatus t' ! 1 = TOOL_OK"
    by simp
  with r(2)
  have "map_option (\<lambda>t'. (LastStraysPos t' ! 1, LastStraysStatus t' ! 1))
          (update_strays 5 two_slots ?obs) = Some ((5, 5, 5), TOOL_OK)"
    by simp
  moreover from h6 have "distance (0, 0, 10) (0.1, 0, 10) \<noteq> DBL_MAX"
      "distance (0, 0, 10) (5, 5, 5) \<noteq> DBL_MAX"
      "distance (0, 0, 0) (0.1, 0, 10) \<noteq> DBL_MAX" "distance (0, 0, 0) (5, 5, 5) \<noteq> DBL_MAX"
    by (simp_all add: fields)
  ultimately show ?thesis
    using h1 h2 h3 h7 m e u by (simp only: len) simp
qed

end
